theory Spec2Isabelle
  imports Complex_Main "HOL-Library.Sublist" "HOL-Library.AList"
begin

section \<open>JavaScript values\<close>

text \<open>
  The generation service is \<^verbatim>\<open>services/geminiService.ts\<close>. The repository holds two
  versions of it; the one embedded here is the later one, whose \<^verbatim>\<open>cleanAndParseJSON\<close> is
  the repair ladder and whose second stage-1 event has four fixed log lines. The earlier
  version differs in the ladder and computes those log lines from the analysis text.
  Writes to the console are left out: nothing reads them.

  The service handles three kinds of run-time data: strings, the values that
  \<^verbatim>\<open>JSON.parse\<close> produces, and thrown errors.
  Strings are \<^typ>\<open>string\<close>: the model covers the code units below 256, of which the
  white space of \<^verbatim>\<open>\s\<close> and of \<^verbatim>\<open>trim\<close> is TAB, LF, VT, FF, CR, SP and NBSP.
  A parsed value is a \<^verbatim>\<open>json\<close>; an object is the list of its members in parse order, read
  with \<^const>\<open>map_of\<close> and written with \<^const>\<open>AList.update\<close> (an existing key keeps its
  place, a new key goes last, as a property assignment does); the program never observes
  the order of the members. Numbers are doubles in the program; the service never
  computes with them, it only stores the literal \<^verbatim>\<open>0.7\<close>, so they are reals here.
\<close>

datatype json =
    JNull
  | JBool bool
  | JNum real
  | JStr string
  | JArr "json list"
  | JObj "(string \<times> json) list"

datatype js_error =
    Error (message: string)
  | TypeError (message: string)

definition isSpace :: "char \<Rightarrow> bool" where
  "isSpace c \<longleftrightarrow> c \<in> set [CHR 0x09, CHR 0x0A, CHR 0x0B, CHR 0x0C, CHR 0x0D, CHR 0x20, CHR 0xA0]"

definition trim :: "string \<Rightarrow> string" where
  "trim s = rev (dropWhile isSpace (rev (dropWhile isSpace s)))"

definition indexOf :: "string \<Rightarrow> char \<Rightarrow> int" where
  "indexOf s c = (if c \<in> set s then int (length (takeWhile (\<lambda>x. x \<noteq> c) s)) else - 1)"

definition lastIndexOf :: "string \<Rightarrow> char \<Rightarrow> int" where
  "lastIndexOf s c =
     (if c \<in> set s then int (length s) - 1 - int (length (takeWhile (\<lambda>x. x \<noteq> c) (rev s)))
      else - 1)"

definition substring :: "string \<Rightarrow> int \<Rightarrow> int \<Rightarrow> string" where
  \<comment> \<open>\<^verbatim>\<open>s.substring(a, b)\<close> for \<open>0 \<le> a \<le> b\<close>, the only way the service calls it\<close>
  "substring s a b = take (nat b - nat a) (drop (nat a) s)"

definition substringFrom :: "string \<Rightarrow> int \<Rightarrow> string" where
  \<comment> \<open>\<^verbatim>\<open>s.substring(a)\<close>\<close>
  "substringFrom s a = drop (nat a) s"

definition matchCount :: "char \<Rightarrow> string \<Rightarrow> int" where
  \<comment> \<open>\<^verbatim>\<open>(s.match(/c/g) || []).length\<close> for a one-character pattern\<close>
  "matchCount c s = int (length (filter (\<lambda>x. x = c) s))"

section \<open>The regular-expression replacements\<close>

text \<open>
  \<^verbatim>\<open>text.replace(/```json\s*|\s*```/g, "")\<close>: the matcher tries each position from the
  left, the first alternative before the second, and resumes after a match. \<^verbatim>\<open>\s*\<close> is
  greedy and is followed by a character that is not white space, so backtracking never
  finds a shorter match.
\<close>

function stripFences :: "string \<Rightarrow> string" where
  "stripFences [] = []"
| "stripFences (c # cs) =
     (if prefix ''```json'' (c # cs)
        then stripFences (dropWhile isSpace (drop 7 (c # cs)))
      else if prefix ''```'' (dropWhile isSpace (c # cs))
        then stripFences (drop 3 (dropWhile isSpace (c # cs)))
      else c # stripFences cs)"
  by pat_completeness auto

lemma prefix_length_le: "prefix p s \<Longrightarrow> length p \<le> length s"
  by (auto simp: prefix_def)

termination stripFences
proof (relation "measure length", goal_cases)
  case 1
  show ?case by simp
next
  case (2 c cs)
  have "length (dropWhile isSpace (drop 7 (c # cs))) \<le> length (drop 7 (c # cs))"
    by (rule length_dropWhile_le)
  then show ?case by simp
next
  case (3 c cs)
  from 3(2) have "3 \<le> length (dropWhile isSpace (c # cs))"
    using prefix_length_le by fastforce
  moreover have "length (dropWhile isSpace (c # cs)) \<le> length (c # cs)"
    by (rule length_dropWhile_le)
  ultimately show ?case by simp
next
  case (4 c cs)
  show ?case by simp
qed

text \<open>
  The three repairs \<^verbatim>\<open>/}\s*{/g\<close>, \<^verbatim>\<open>/,\s*}/g\<close> and \<^verbatim>\<open>/,\s*]/g\<close> have one shape: a
  character, a greedy run of white space, a second character.
\<close>

function replaceGapped :: "char \<Rightarrow> char \<Rightarrow> string \<Rightarrow> string \<Rightarrow> string" where
  "replaceGapped a b rep [] = []"
| "replaceGapped a b rep (c # cs) =
     (if c = a \<and> prefix [b] (dropWhile isSpace cs)
        then rep @ replaceGapped a b rep (tl (dropWhile isSpace cs))
      else c # replaceGapped a b rep cs)"
  by pat_completeness auto

termination replaceGapped
proof (relation "measure (\<lambda>(a, b, rep, s). length s)", goal_cases)
  case 1
  show ?case by simp
next
  case (2 a b rep c cs)
  have "length (tl (dropWhile isSpace cs)) \<le> length (dropWhile isSpace cs)"
    by simp
  also have "\<dots> \<le> length cs"
    by (rule length_dropWhile_le)
  finally show ?case by simp
next
  case (3 a b rep c cs)
  show ?case by simp
qed

section \<open>The JSON repair ladder\<close>

definition parseFailure :: js_error where
  "parseFailure =
     Error ''Failed to parse geometric data. The generation may have been interrupted or malformed.''"

definition syntaxRepairs :: "string \<Rightarrow> string" where
  "syntaxRepairs cleanText =
     replaceGapped CHR '','' CHR '']'' '']''
       (replaceGapped CHR '','' CHR ''}'' ''}''
         (replaceGapped CHR ''}'' CHR ''{'' ''}, {'' cleanText))"

definition cleanMarkdown :: "string \<Rightarrow> string" where
  "cleanMarkdown text =
     (let cleanText = trim (stripFences text);
          firstBrace = indexOf cleanText CHR ''{''
      in if firstBrace \<noteq> - 1 then substringFrom cleanText firstBrace else cleanText)"

definition closingSuffix :: "string \<Rightarrow> string" where
  "closingSuffix truncatedText =
     (let openBraces = matchCount CHR ''{'' truncatedText;
          closeBraces = matchCount CHR ''}'' truncatedText;
          openBrackets = matchCount CHR ''['' truncatedText;
          closeBrackets = matchCount CHR '']'' truncatedText
      in replicate (nat (openBrackets - closeBrackets)) CHR '']''
         @ replicate (nat (openBraces - closeBraces)) CHR ''}'')"

definition truncationRepair :: "string \<Rightarrow> string option" where
  \<comment> \<open>the text that attempt 3 parses, if the repaired text has a closing brace at all\<close>
  "truncationRepair repairedText =
     (let lastClosingBrace = lastIndexOf repairedText CHR ''}'' in
      if lastClosingBrace \<noteq> - 1 then
        (let truncatedText = substring repairedText 0 (lastClosingBrace + 1);
             suffix = closingSuffix truncatedText
         in Some (truncatedText @ suffix))
      else None)"

text \<open>
  \<^verbatim>\<open>JSON.parse\<close> belongs to the platform, not to the repository: it is the parameter
  \<open>JSON_parse\<close>, with \<open>None\<close> where it throws. The ladder discards the exception of every
  failed attempt.
\<close>

definition cleanAndParseJSON :: "(string \<Rightarrow> json option) \<Rightarrow> string \<Rightarrow> js_error + json" where
  "cleanAndParseJSON JSON_parse text =
     (let cleanText = cleanMarkdown text in
      case JSON_parse cleanText of
        Some v \<Rightarrow> Inr v
      | None \<Rightarrow>
         (let repairedText = syntaxRepairs cleanText in
          case JSON_parse repairedText of
            Some v \<Rightarrow> Inr v
          | None \<Rightarrow>
             (case truncationRepair repairedText of
                None \<Rightarrow> Inl parseFailure
              | Some closedText \<Rightarrow>
                 (case JSON_parse closedText of
                    Some v \<Rightarrow> Inr v
                  | None \<Rightarrow> Inl parseFailure))))"

section \<open>A reference parser for the JSON grammar\<close>

text \<open>
  The ladder is stated and proved for every \<open>JSON_parse\<close>. To run it on concrete texts the
  theory also carries one instance, a parser for the JSON grammar of ECMA-404 (white space,
  the three literals, numbers, strings with their escapes, arrays, objects, a repeated key
  keeping the last value), restricted like \<^typ>\<open>string\<close> to code units below 256: a
  \<^verbatim>\<open>\u\<close> escape of a code unit above 255 is rejected. It is a tokeniser followed by a
  pushdown automaton over the tokens, total by construction.
\<close>

datatype token = TLBrace | TRBrace | TLBrack | TRBrack | TColon | TComma | TVal json

definition isDigit :: "char \<Rightarrow> bool" where
  "isDigit c \<longleftrightarrow> c \<in> set ''0123456789''"

definition digitsValue :: "string \<Rightarrow> nat" where
  "digitsValue ds = foldl (\<lambda>n c. 10 * n + (of_char c - 48)) 0 ds"

definition hexValue :: "char \<Rightarrow> nat option" where
  "hexValue c =
     (if isDigit c then Some (of_char c - 48)
      else if c \<in> set ''abcdef'' then Some (of_char c - 87)
      else if c \<in> set ''ABCDEF'' then Some (of_char c - 55)
      else None)"

definition unescape :: "char \<Rightarrow> char option" where
  "unescape e =
     (if e = CHR 0x22 \<or> e = CHR 0x5C \<or> e = CHR ''/'' then Some e
      else if e = CHR ''b'' then Some (CHR 0x08)
      else if e = CHR ''f'' then Some (CHR 0x0C)
      else if e = CHR ''n'' then Some (CHR 0x0A)
      else if e = CHR ''r'' then Some (CHR 0x0D)
      else if e = CHR ''t'' then Some (CHR 0x09)
      else None)"

definition unicodeEscape :: "char \<Rightarrow> char \<Rightarrow> char \<Rightarrow> char \<Rightarrow> char option" where
  "unicodeEscape a b c d =
     (case (hexValue a, hexValue b, hexValue c, hexValue d) of
        (Some w, Some x, Some y, Some z) \<Rightarrow>
          (if w = 0 \<and> x = 0 then Some (char_of (16 * y + z)) else None)
      | _ \<Rightarrow> None)"

fun lexString :: "string \<Rightarrow> (string \<times> string) option" where
  "lexString [] = None"
| "lexString (c # cs) =
     (if c = CHR 0x22 then Some ([], cs)
      else if c = CHR 0x5C then
        (case cs of
           [] \<Rightarrow> None
         | e # cs' \<Rightarrow>
            (if e = CHR ''u'' then
               (case cs' of
                  h1 # h2 # h3 # h4 # cs'' \<Rightarrow>
                    (case unicodeEscape h1 h2 h3 h4 of
                       None \<Rightarrow> None
                     | Some x \<Rightarrow> map_option (\<lambda>(s, r). (x # s, r)) (lexString cs''))
                | _ \<Rightarrow> None)
             else
               (case unescape e of
                  None \<Rightarrow> None
                | Some x \<Rightarrow> map_option (\<lambda>(s, r). (x # s, r)) (lexString cs'))))
      else if (of_char c :: nat) < 32 then None
      else map_option (\<lambda>(s, r). (c # s, r)) (lexString cs))"


definition numberSign :: "string \<Rightarrow> bool \<times> string" where
  "numberSign s = (if prefix ''-'' s then (True, tl s) else (False, s))"

definition spanDigits :: "string \<Rightarrow> string \<times> string" where
  "spanDigits s = (takeWhile isDigit s, dropWhile isDigit s)"

definition fractionPart :: "string \<Rightarrow> string option \<times> string" where
  "fractionPart s =
     (if prefix ''.'' s then (Some (fst (spanDigits (tl s))), snd (spanDigits (tl s)))
      else (None, s))"

definition exponentPart :: "string \<Rightarrow> (bool \<times> string) option \<times> string" where
  "exponentPart s =
     (if prefix ''e'' s \<or> prefix ''E'' s then
        (let signed = (if prefix ''+'' (tl s) then (False, tl (tl s)) else numberSign (tl s))
         in (Some (fst signed, fst (spanDigits (snd signed))), snd (spanDigits (snd signed))))
      else (None, s))"

definition numberValue :: "bool \<Rightarrow> string \<Rightarrow> string option \<Rightarrow> (bool \<times> string) option \<Rightarrow> real" where
  "numberValue neg ip fp ex =
     (let mantissa =
            real (digitsValue ip)
            + (case fp of None \<Rightarrow> 0 | Some f \<Rightarrow> real (digitsValue f) / 10 ^ length f);
          scaled =
            (case ex of
               None \<Rightarrow> mantissa
             | Some (eneg, ep) \<Rightarrow>
                 if eneg then mantissa / 10 ^ digitsValue ep else mantissa * 10 ^ digitsValue ep)
      in if neg then - scaled else scaled)"

definition lexNumber :: "string \<Rightarrow> (real \<times> string) option" where
  "lexNumber s =
     (let (neg, s1) = numberSign s;
          (ip, s2) = spanDigits s1;
          (fp, s3) = fractionPart s2;
          (ex, s4) = exponentPart s3
      in if ip = [] \<or> (1 < length ip \<and> hd ip = CHR ''0'') \<or> fp = Some []
            \<or> map_option snd ex = Some []
         then None
         else Some (numberValue neg ip fp ex, s4))"

lemma lexString_length: "lexString cs = Some (s, r) \<Longrightarrow> length r \<le> length cs"
proof (induction cs arbitrary: s r rule: lexString.induct)
  case 1
  then show ?case by simp
next
  case (2 c cs)
  then show ?case
    by (fastforce split: if_splits list.splits option.splits)
qed

lemma numberSign_length: "length (snd (numberSign s)) \<le> length s"
  by (simp add: numberSign_def)

lemma spanDigits_length: "length (snd (spanDigits s)) \<le> length s"
  by (simp add: spanDigits_def length_dropWhile_le)

lemma spanDigits_shorter: "fst (spanDigits s) \<noteq> [] \<Longrightarrow> length (snd (spanDigits s)) < length s"
  by (cases s) (auto simp: spanDigits_def le_imp_less_Suc length_dropWhile_le split: if_splits)

lemma length_tl_le: "length (tl xs) \<le> length xs"
  by simp

lemma fractionPart_length: "length (snd (fractionPart s)) \<le> length s"
proof -
  have "length (snd (spanDigits (tl s))) \<le> length (tl s)"
    by (rule spanDigits_length)
  also have "\<dots> \<le> length s"
    by (rule length_tl_le)
  finally show ?thesis
    by (simp add: fractionPart_def)
qed

lemma exponentPart_length: "length (snd (exponentPart s)) \<le> length s"
proof -
  have tl: "length (tl s) \<le> length s"
    by (rule length_tl_le)
  have "length (snd (spanDigits (tl (tl s)))) \<le> length (tl (tl s))"
    by (rule spanDigits_length)
  also have "\<dots> \<le> length (tl s)"
    by (rule length_tl_le)
  finally have 1: "length (snd (spanDigits (tl (tl s)))) \<le> length s"
    using tl by (rule le_trans)
  have "length (snd (spanDigits (snd (numberSign (tl s))))) \<le> length (snd (numberSign (tl s)))"
    by (rule spanDigits_length)
  also have "\<dots> \<le> length (tl s)"
    by (rule numberSign_length)
  finally have 2: "length (snd (spanDigits (snd (numberSign (tl s))))) \<le> length s"
    using tl by (rule le_trans)
  from 1 2 show ?thesis
    by (simp add: exponentPart_def Let_def)
qed

lemma lexNumber_length:
  assumes "lexNumber (c # cs) = Some (x, r)"
  shows "length r \<le> length cs"
proof -
  let ?s1 = "snd (numberSign (c # cs))"
  let ?s2 = "snd (spanDigits ?s1)"
  let ?s3 = "snd (fractionPart ?s2)"
  let ?s4 = "snd (exponentPart ?s3)"
  from assms have ip: "fst (spanDigits ?s1) \<noteq> []" and r: "r = ?s4"
    by (auto simp: lexNumber_def Let_def case_prod_beta split: if_splits)
  have "length ?s4 \<le> length ?s3"
    by (rule exponentPart_length)
  also have "\<dots> \<le> length ?s2"
    by (rule fractionPart_length)
  also have "\<dots> < length ?s1"
    using ip by (rule spanDigits_shorter)
  also have "\<dots> \<le> length (c # cs)"
    by (rule numberSign_length)
  finally show ?thesis
    by (simp add: r)
qed


function lexJSON :: "string \<Rightarrow> token list option" where
  "lexJSON [] = Some []"
| "lexJSON (c # cs) =
     (if c \<in> set [CHR 0x20, CHR 0x09, CHR 0x0A, CHR 0x0D] then lexJSON cs
      else if c = CHR ''{'' then map_option ((#) TLBrace) (lexJSON cs)
      else if c = CHR ''}'' then map_option ((#) TRBrace) (lexJSON cs)
      else if c = CHR ''['' then map_option ((#) TLBrack) (lexJSON cs)
      else if c = CHR '']'' then map_option ((#) TRBrack) (lexJSON cs)
      else if c = CHR '':'' then map_option ((#) TColon) (lexJSON cs)
      else if c = CHR '','' then map_option ((#) TComma) (lexJSON cs)
      else if c = CHR 0x22 then
        (case lexString cs of
           None \<Rightarrow> None
         | Some (s, r) \<Rightarrow> map_option ((#) (TVal (JStr s))) (lexJSON r))
      else if c = CHR ''-'' \<or> isDigit c then
        (case lexNumber (c # cs) of
           None \<Rightarrow> None
         | Some (x, r) \<Rightarrow> map_option ((#) (TVal (JNum x))) (lexJSON r))
      else if prefix ''true'' (c # cs) then map_option ((#) (TVal (JBool True))) (lexJSON (drop 4 (c # cs)))
      else if prefix ''false'' (c # cs) then map_option ((#) (TVal (JBool False))) (lexJSON (drop 5 (c # cs)))
      else if prefix ''null'' (c # cs) then map_option ((#) (TVal JNull)) (lexJSON (drop 4 (c # cs)))
      else None)"
  by pat_completeness auto

termination lexJSON
proof (relation "measure length", goal_cases)
  case (9 c cs x2 x y)
  then show ?case
    using lexString_length [of cs x y] by simp
next
  case (10 c cs x2 x y)
  then show ?case
    using lexNumber_length [of c cs x y] by simp
qed simp_all

datatype frame =
    FArr "json list"
  | FObj "(string \<times> json) list"
  | FKey "(string \<times> json) list" string

datatype pmode = Value | ArrStart | ObjStart | ObjKey | Colon | After | Done json

type_synonym pstate = "pmode \<times> frame list"

definition deliver :: "json \<Rightarrow> frame list \<Rightarrow> pstate option" where
  "deliver v st =
     (case st of
        [] \<Rightarrow> Some (Done v, [])
      | FArr xs # st' \<Rightarrow> Some (After, FArr (xs @ [v]) # st')
      | FKey ms k # st' \<Rightarrow> Some (After, FObj (AList.update k v ms) # st')
      | FObj ms # st' \<Rightarrow> None)"

definition openValue :: "frame list \<Rightarrow> token \<Rightarrow> pstate option" where
  "openValue st t =
     (case t of
        TVal v \<Rightarrow> deliver v st
      | TLBrack \<Rightarrow> Some (ArrStart, FArr [] # st)
      | TLBrace \<Rightarrow> Some (ObjStart, FObj [] # st)
      | _ \<Rightarrow> None)"

definition closeArr :: "frame list \<Rightarrow> pstate option" where
  "closeArr st = (case st of FArr xs # st' \<Rightarrow> deliver (JArr xs) st' | _ \<Rightarrow> None)"

definition closeObj :: "frame list \<Rightarrow> pstate option" where
  "closeObj st = (case st of FObj ms # st' \<Rightarrow> deliver (JObj ms) st' | _ \<Rightarrow> None)"

definition memberKey :: "frame list \<Rightarrow> token \<Rightarrow> pstate option" where
  "memberKey st t =
     (case t of
        TVal (JStr k) \<Rightarrow> (case st of FObj ms # st' \<Rightarrow> Some (Colon, FKey ms k # st') | _ \<Rightarrow> None)
      | _ \<Rightarrow> None)"

definition pstep :: "pstate \<Rightarrow> token \<Rightarrow> pstate option" where
  "pstep s t =
     (case s of (m, st) \<Rightarrow>
        (case m of
           Value \<Rightarrow> openValue st t
         | ArrStart \<Rightarrow> (if t = TRBrack then closeArr st else openValue st t)
         | ObjStart \<Rightarrow> (if t = TRBrace then closeObj st else memberKey st t)
         | ObjKey \<Rightarrow> memberKey st t
         | Colon \<Rightarrow> (if t = TColon then Some (Value, st) else None)
         | After \<Rightarrow>
            (case t of
               TComma \<Rightarrow>
                 (case st of
                    FArr xs # st' \<Rightarrow> Some (Value, st)
                  | FObj ms # st' \<Rightarrow> Some (ObjKey, st)
                  | _ \<Rightarrow> None)
             | TRBrack \<Rightarrow> closeArr st
             | TRBrace \<Rightarrow> closeObj st
             | _ \<Rightarrow> None)
         | Done v \<Rightarrow> None))"

fun prun :: "pstate \<Rightarrow> token list \<Rightarrow> json option" where
  "prun s [] = (case s of (Done v, []) \<Rightarrow> Some v | _ \<Rightarrow> None)"
| "prun s (t # ts) = (case pstep s t of None \<Rightarrow> None | Some s' \<Rightarrow> prun s' ts)"

definition referenceParse :: "string \<Rightarrow> json option" where
  "referenceParse s = (case lexJSON s of None \<Rightarrow> None | Some ts \<Rightarrow> prun (Value, []) ts)"

section \<open>The generation service\<close>

text \<open>
  A request to \<^verbatim>\<open>ai.models.generateContent\<close> is a model name, a list of parts and, for
  the structured generation, a configuration. The prompts are template literals; a prompt
  is the constructor of its template applied to the values interpolated into it, so that
  two prompts are equal exactly when they come from the same template with the same
  values.
\<close>

datatype prompt_text =
    SystemInstruction
  | ViewOfReference string
  | SingleView string string
  | AnalysisPrompt string
  | ModelPrompt string string
  | Plain string

datatype part = InlineData string string | TextPart prompt_text

datatype schema =
    SString
  | SEnum "string list"
  | SNumber
  | SArray schema
  | SObject "(string \<times> schema) list" "string list"

record generation_config =
  systemInstruction :: prompt_text
  maxOutputTokens :: nat
  thinkingBudget :: nat
  responseMimeType :: string
  responseSchema :: schema

record request =
  model :: string
  contents :: "part list"
  config :: "generation_config option"

text \<open>
  Of a response the service reads \<^verbatim>\<open>candidates[0]?.content?.parts\<close>, each part's
  \<^verbatim>\<open>inlineData.data\<close>, and \<^verbatim>\<open>text\<close> (the field \<open>responseText\<close>); every one of them may
  be undefined.
\<close>

record blob =
  data :: "string option"

record response_part =
  inlineData :: "blob option"

record response_content =
  parts :: "response_part list option"

record candidate =
  content :: "response_content option"

record response =
  candidates :: "candidate list option"
  responseText :: "string option"

text \<open>
  The service is outside the program: \<open>ai r k\<close> is what the \<open>k\<close>-th issue (from 0) of
  the request \<open>r\<close> settles to, an error where the call rejects. What a function does to
  the world is the list of its actions, in order.
\<close>

type_synonym service = "request \<Rightarrow> nat \<Rightarrow> js_error + response"

record progress_event =
  stageId :: nat
  logs :: "string list"
  sceneConfig :: "json option"

datatype action = Request request | Delay nat | Yield progress_event

record reference_images =
  front :: string
  back' :: string
  left :: string
  right :: string

section \<open>One view, with retries\<close>

function showNat :: "nat \<Rightarrow> string" where
  "showNat n =
     (if n < 10 then [char_of (48 + n)] else showNat (n div 10) @ [char_of (48 + n mod 10)])"
  by pat_completeness auto

termination showNat
  by (relation "measure id") auto

definition truthyString :: "string option \<Rightarrow> bool" where
  "truthyString s = (case s of None \<Rightarrow> False | Some x \<Rightarrow> x \<noteq> [])"

definition viewRequest :: "string \<Rightarrow> string \<Rightarrow> string option \<Rightarrow> request" where
  "viewRequest prompt view referenceImage =
     (let fullPrompt =
            (if truthyString referenceImage then ViewOfReference view else SingleView view prompt);
          imageParts =
            (case referenceImage of
               None \<Rightarrow> []
             | Some img \<Rightarrow> if img \<noteq> [] then [InlineData ''image/png'' img] else [])
      in \<lparr>model = ''gemini-2.5-flash-image'',
          contents = imageParts @ [TextPart fullPrompt],
          config = None\<rparr>)"

fun firstImage :: "response_part list \<Rightarrow> string option" where
  "firstImage [] = None"
| "firstImage (p # ps) =
     (case inlineData p of
        None \<Rightarrow> firstImage ps
      | Some b \<Rightarrow>
         (case data b of
            None \<Rightarrow> firstImage ps
          | Some d \<Rightarrow> if d \<noteq> [] then Some d else firstImage ps))"

definition imageOf :: "response \<Rightarrow> string option" where
  "imageOf response =
     (case candidates response of
        None \<Rightarrow> None
      | Some cs \<Rightarrow>
         (case cs of
            [] \<Rightarrow> None
          | c # _ \<Rightarrow>
             (case content c of
                None \<Rightarrow> None
              | Some ct \<Rightarrow> (case parts ct of None \<Rightarrow> None | Some ps \<Rightarrow> firstImage ps))))"

definition attemptView :: "service \<Rightarrow> request \<Rightarrow> string \<Rightarrow> nat \<Rightarrow> js_error + string" where
  "attemptView ai req view k =
     (case ai req k of
        Inl error \<Rightarrow> Inl error
      | Inr response \<Rightarrow>
         (case imageOf response of
            Some img \<Rightarrow> Inr img
          | None \<Rightarrow> Inl (Error (''Model returned no image data for '' @ view))))"

definition exhausted :: "string \<Rightarrow> nat \<Rightarrow> js_error option \<Rightarrow> js_error" where
  "exhausted view retries lastError =
     Error (''Failed to generate '' @ view @ '' after '' @ showNat retries
            @ '' attempts. Last error: ''
            @ (case lastError of None \<Rightarrow> ''undefined'' | Some e \<Rightarrow> message e))"

function attempts ::
  "service \<Rightarrow> request \<Rightarrow> string \<Rightarrow> nat \<Rightarrow> nat \<Rightarrow> js_error option
     \<Rightarrow> (js_error + string) \<times> action list" where
  "attempts ai req view retries attempt lastError =
     (if attempt \<le> retries then
        (case attemptView ai req view (attempt - 1) of
           Inr img \<Rightarrow> (Inr img, [Request req])
         | Inl error \<Rightarrow>
            (let waits = (if attempt < retries then [Delay (1000 * 2 ^ (attempt - 1))] else []);
                 (result, later) = attempts ai req view retries (attempt + 1) (Some error)
             in (result, Request req # waits @ later)))
      else (Inl (exhausted view retries lastError), []))"
  by pat_completeness auto

termination attempts
  by (relation "measure (\<lambda>(ai, req, view, retries, attempt, lastError). Suc retries - attempt)")
     auto

definition generateSingleView ::
  "service \<Rightarrow> string \<Rightarrow> string \<Rightarrow> string option \<Rightarrow> nat \<Rightarrow> (js_error + string) \<times> action list" where
  "generateSingleView ai prompt view referenceImage retries =
     attempts ai (viewRequest prompt view referenceImage) view retries 1 None"

section \<open>The reference image set\<close>

text \<open>
  \<^verbatim>\<open>Promise.all\<close> starts the three conditioned views together. Each of them talks to the
  service alone, so its result and its own actions do not depend on the schedule; the
  schedule decides how the three action lists interleave and, when more than one view
  fails, whose error rejects first. The builder is therefore the set of its possible
  outcomes, over every interleaving; the actions of a view that is still retrying when
  the builder has rejected are part of the run.
\<close>

definition promiseAll ::
  "string \<Rightarrow> js_error + string \<Rightarrow> js_error + string \<Rightarrow> js_error + string
     \<Rightarrow> (js_error + reference_images) set" where
  "promiseAll f b l r =
     (case (b, l, r) of
        (Inr vb, Inr vl, Inr vr) \<Rightarrow> {Inr \<lparr>front = f, back' = vb, left = vl, right = vr\<rparr>}
      | _ \<Rightarrow> Inl ` (\<Union>x \<in> {b, l, r}. case x of Inl e \<Rightarrow> {e} | Inr _ \<Rightarrow> {}))"

definition interleavings :: "'a list \<Rightarrow> 'a list \<Rightarrow> 'a list \<Rightarrow> 'a list set" where
  "interleavings xs ys zs = (\<Union>u \<in> shuffles xs ys. shuffles u zs)"

definition generateReferenceImages ::
  "service \<Rightarrow> string \<Rightarrow> ((js_error + reference_images) \<times> action list) set" where
  "generateReferenceImages ai prompt =
     (case generateSingleView ai prompt ''Front view'' None 3 of
        (Inl error, t0) \<Rightarrow> {(Inl error, t0)}
      | (Inr f, t0) \<Rightarrow>
         (let (b, tb) = generateSingleView ai prompt ''Back view'' (Some f) 3;
              (l, tl) = generateSingleView ai prompt ''Left side profile view'' (Some f) 3;
              (r, tr) = generateSingleView ai prompt ''Right side profile view'' (Some f) 3
          in (\<lambda>(res, t). (res, t0 @ Delay 200 # t))
               ` (promiseAll f b l r \<times> interleavings tb tl tr)))"

section \<open>The scene workflow\<close>

definition shapeTypes :: "string list" where
  "shapeTypes =
     [''BOX'', ''SPHERE'', ''CYLINDER'', ''CONE'', ''TORUS'', ''DODECAHEDRON'', ''ICOSAHEDRON'']"

definition sceneSchema :: schema where
  "sceneSchema =
     SObject
       [(''backgroundColor'', SString),
        (''ambientLightColor'', SString),
        (''ambientLightIntensity'', SNumber),
        (''shapes'',
           SArray
             (SObject
                [(''id'', SString),
                 (''type'', SEnum shapeTypes),
                 (''position'', SArray SNumber),
                 (''rotation'', SArray SNumber),
                 (''scale'', SArray SNumber),
                 (''color'', SString),
                 (''metalness'', SNumber),
                 (''roughness'', SNumber),
                 (''opacity'', SNumber)]
                [''id'', ''type'', ''position'', ''rotation'', ''scale'', ''color'']))]
       [''backgroundColor'', ''shapes'']"

definition analysisRequest :: "string \<Rightarrow> reference_images \<Rightarrow> request" where
  "analysisRequest prompt referenceImages =
     \<lparr>model = ''gemini-2.5-flash'',
      contents =
        [InlineData ''image/png'' (front referenceImages), TextPart (AnalysisPrompt prompt)],
      config = None\<rparr>"

definition analysisFallback :: string where
  "analysisFallback =
     ''Visual analysis completed successfully. Requirement: 100k Polys, Quad-dominant Topology.''"

definition analysisTextOf :: "js_error + response \<Rightarrow> string" where
  \<comment> \<open>the \<^verbatim>\<open>try\<close> block of stage 1: \<^verbatim>\<open>analysisResponse.text || "Analysis complete."\<close>,
      and the fallback of its \<^verbatim>\<open>catch\<close>\<close>
  "analysisTextOf outcome =
     (case outcome of
        Inl e \<Rightarrow> analysisFallback
      | Inr analysisResponse \<Rightarrow>
         (case responseText analysisResponse of
            None \<Rightarrow> ''Analysis complete.''
          | Some t \<Rightarrow> if t \<noteq> [] then t else ''Analysis complete.''))"

definition modelRequest :: "string \<Rightarrow> reference_images \<Rightarrow> string \<Rightarrow> request" where
  "modelRequest prompt referenceImages analysisText =
     \<lparr>model = ''gemini-2.5-flash'',
      contents =
        [InlineData ''image/png'' (front referenceImages),
         TextPart (Plain ''Front View Reference''),
         InlineData ''image/png'' (left referenceImages),
         TextPart (Plain ''Side View Reference''),
         TextPart (ModelPrompt prompt analysisText)],
      config =
        Some \<lparr>systemInstruction = SystemInstruction,
              maxOutputTokens = 8192,
              thinkingBudget = 1024,
              responseMimeType = ''application/json'',
              responseSchema = sceneSchema\<rparr>\<rparr>"

text \<open>
  \<^verbatim>\<open>cleanAndParseJSON(modelResponse.text) as SceneConfig\<close> checks nothing: \<open>sceneData\<close> is
  whatever value the text parsed to. The property reads of \<^verbatim>\<open>sceneData.shapes.length\<close> and
  the object spread are those of JavaScript on such a value; a read of a property of
  \<^verbatim>\<open>null\<close> or \<^verbatim>\<open>undefined\<close> throws a TypeError (its message is the engine's).
\<close>

definition parseModelText :: "(string \<Rightarrow> json option) \<Rightarrow> string option \<Rightarrow> js_error + json" where
  "parseModelText JSON_parse t =
     (case t of
        None \<Rightarrow> Inl (TypeError ''Cannot read properties of undefined (reading 'replace')'')
      | Some s \<Rightarrow> cleanAndParseJSON JSON_parse s)"

definition getShapes :: "json \<Rightarrow> js_error + json option" where
  "getShapes sceneData =
     (case sceneData of
        JNull \<Rightarrow> Inl (TypeError ''Cannot read properties of null (reading 'shapes')'')
      | JObj ms \<Rightarrow> Inr (map_of ms ''shapes'')
      | _ \<Rightarrow> Inr None)"

definition getLength :: "json option \<Rightarrow> js_error + json option" where
  "getLength v =
     (case v of
        None \<Rightarrow> Inl (TypeError ''Cannot read properties of undefined (reading 'length')'')
      | Some JNull \<Rightarrow> Inl (TypeError ''Cannot read properties of null (reading 'length')'')
      | Some (JArr xs) \<Rightarrow> Inr (Some (JNum (real (length xs))))
      | Some (JStr s) \<Rightarrow> Inr (Some (JNum (real (length s))))
      | Some (JObj ms) \<Rightarrow> Inr (map_of ms ''length'')
      | Some _ \<Rightarrow> Inr None)"

definition shapesLength :: "json \<Rightarrow> js_error + json option" where
  "shapesLength sceneData =
     (case getShapes sceneData of Inl e \<Rightarrow> Inl e | Inr shapes \<Rightarrow> getLength shapes)"

definition spread :: "json \<Rightarrow> (string \<times> json) list" where
  \<comment> \<open>the own enumerable properties that \<^verbatim>\<open>{ ...v }\<close> copies\<close>
  "spread v =
     (case v of
        JObj ms \<Rightarrow> ms
      | JArr xs \<Rightarrow> zip (map showNat [0..<length xs]) xs
      | JStr s \<Rightarrow> zip (map showNat [0..<length s]) (map (\<lambda>c. JStr [c]) s)
      | _ \<Rightarrow> [])"

definition brighten :: "json \<Rightarrow> json" where
  \<comment> \<open>\<^verbatim>\<open>const finalSceneData = { ...sceneData }; finalSceneData.ambientLightIntensity = 0.7\<close>\<close>
  "brighten sceneData = JObj (AList.update ''ambientLightIntensity'' (JNum 0.7) (spread sceneData))"

definition stage1Events :: "request \<Rightarrow> action list" where
  "stage1Events analysisReq =
     [Yield \<lparr>stageId = 1,
             logs = [''Initializing visual cortex...'', ''Loading reference images into context...''],
             sceneConfig = None\<rparr>,
      Delay 800,
      Request analysisReq,
      Yield \<lparr>stageId = 1,
             logs = [''Visual decomposition complete.'',
                     ''Analysis Result: Recommended Poly Count > 100k'',
                     ''Analysis Result: Topology = Quad-dominant (Subdivision Ready)'',
                     ''Material classification done.''],
             sceneConfig = None\<rparr>,
      Delay 500]"

definition stage2Start :: "request \<Rightarrow> action list" where
  "stage2Start modelReq =
     [Yield \<lparr>stageId = 2,
             logs = [''Converting 100k+ poly target to Voxel Grid...'',
                     ''Initializing high-density primitive clustering...'',
                     ''Approximating Quad-topology with micro-structures...'',
                     ''Sculpting primary volumes...''],
             sceneConfig = None\<rparr>,
      Request modelReq]"

definition laterStages :: "string \<Rightarrow> json \<Rightarrow> action list" where
  "laterStages shapeCount sceneData =
     [Yield \<lparr>stageId = 2,
             logs = [''Generated '' @ shapeCount @ '' geometric clusters (Simulated High-Poly).'',
                     ''Topology Optimization: Voxel Approximation applied.'',
                     ''Silhouette matched to reference.''],
             sceneConfig = Some sceneData\<rparr>,
      Delay 800,
      Yield \<lparr>stageId = 3,
             logs = [''Unwrapping UVs...'', ''Generating material maps...'',
                     ''Applying PBR surface details...''],
             sceneConfig = None\<rparr>,
      Delay 1200,
      Yield \<lparr>stageId = 3,
             logs = [''Baking ambient occlusion...'', ''Applying roughness & metalness maps...'',
                     ''Texture compilation complete.''],
             sceneConfig = Some sceneData\<rparr>,
      Delay 800,
      Yield \<lparr>stageId = 4,
             logs = [''Setting up virtual studio...'', ''Calculating global illumination...'',
                     ''Finalizing render pass...''],
             sceneConfig = None\<rparr>,
      Delay 1000,
      Yield \<lparr>stageId = 4,
             logs = [''Post-processing complete.'', ''Render finished.''],
             sceneConfig = Some (brighten sceneData)\<rparr>]"

text \<open>
  The generator, consumed to its end: the actions in order, and the error it threw if it
  did not return. \<open>ToString\<close> is the platform's conversion of an interpolated value
  (\<open>None\<close> is \<^verbatim>\<open>undefined\<close>) to a string. The conversion can throw: an object or an
  array is converted by calling its \<^verbatim>\<open>toString\<close> or \<^verbatim>\<open>valueOf\<close>, and when neither is
  callable and gives a primitive value the result is a TypeError. The template literal of
  the second event of stage 2 is evaluated while the event is built, so an error of the
  conversion ends the run before that event, like an error of the property reads.
\<close>

definition generateSceneWorkflow ::
  "(string \<Rightarrow> json option) \<Rightarrow> (json option \<Rightarrow> js_error + string) \<Rightarrow> service \<Rightarrow> string
     \<Rightarrow> reference_images \<Rightarrow> action list \<times> js_error option" where
  "generateSceneWorkflow JSON_parse ToString ai prompt referenceImages =
     (let analysisReq = analysisRequest prompt referenceImages;
          analysisText = analysisTextOf (ai analysisReq 0);
          modelReq = modelRequest prompt referenceImages analysisText;
          started = stage1Events analysisReq @ stage2Start modelReq
      in case ai modelReq 0 of
           Inl error \<Rightarrow> (started, Some error)
         | Inr modelResponse \<Rightarrow>
            (case parseModelText JSON_parse (responseText modelResponse) of
               Inl error \<Rightarrow> (started, Some error)
             | Inr sceneData \<Rightarrow>
                (case shapesLength sceneData of
                   Inl error \<Rightarrow> (started, Some error)
                 | Inr n \<Rightarrow>
                    (case ToString n of
                       Inl error \<Rightarrow> (started, Some error)
                     | Inr shapeCount \<Rightarrow> (started @ laterStages shapeCount sceneData, None)))))"

fun events :: "action list \<Rightarrow> progress_event list" where
  "events [] = []"
| "events (Yield e # as) = e # events as"
| "events (_ # as) = events as"

fun requests :: "action list \<Rightarrow> request list" where
  "requests [] = []"
| "requests (Request r # as) = r # requests as"
| "requests (_ # as) = requests as"

definition truthy :: "json \<Rightarrow> bool" where
  "truthy v =
     (case v of
        JNull \<Rightarrow> False
      | JBool b \<Rightarrow> b
      | JNum x \<Rightarrow> x \<noteq> 0
      | JStr s \<Rightarrow> s \<noteq> []
      | _ \<Rightarrow> True)"

definition keepConfig :: "json option \<Rightarrow> progress_event \<Rightarrow> json option" where
  \<comment> \<open>\<^verbatim>\<open>if (update.sceneConfig) finalConfig = update.sceneConfig\<close>\<close>
  "keepConfig finalConfig update =
     (case sceneConfig update of
        None \<Rightarrow> finalConfig
      | Some c \<Rightarrow> if truthy c then Some c else finalConfig)"

definition generateSceneFromPrompt ::
  "(string \<Rightarrow> json option) \<Rightarrow> (json option \<Rightarrow> js_error + string) \<Rightarrow> service \<Rightarrow> string
     \<Rightarrow> reference_images option \<Rightarrow> (js_error + json) \<times> action list" where
  "generateSceneFromPrompt JSON_parse ToString ai prompt referenceImages =
     (case referenceImages of
        None \<Rightarrow> (Inl (Error ''Reference images required''), [])
      | Some refs \<Rightarrow>
         (let (trace, thrown) = generateSceneWorkflow JSON_parse ToString ai prompt refs;
              finalConfig = foldl keepConfig None (events trace)
          in case thrown of
               Some error \<Rightarrow> (Inl error, trace)
             | None \<Rightarrow>
                (case finalConfig of
                   None \<Rightarrow> (Inl (Error ''Failed to generate scene''), trace)
                 | Some c \<Rightarrow> (Inr c, trace))))"

section \<open>The batch form in the words of the specification\<close>

text \<open>
  The batch operation is specified as returning the scene of the last progress event that
  carries one. \<open>lastSceneCarried\<close> says that of a list of events; the code's loop is
  \<open>foldl keepConfig None\<close>.
\<close>

definition lastSceneCarried :: "progress_event list \<Rightarrow> json option" where
  "lastSceneCarried evs =
     (let carrying = filter (\<lambda>e. sceneConfig e \<noteq> None) evs
      in if carrying = [] then None else sceneConfig (last carrying))"

section \<open>Services for running the model\<close>

text \<open>
  Concrete services, texts and platform functions on which the theorems below are
  instantiated. \<open>silentService\<close> answers every request with a response that has neither
  candidates nor text; a \<open>scriptedService\<close> answers the analysis request (the one without a
  configuration) with its first argument and the structured generation with its second.
  \<open>referenceToString\<close> is the conversion of ECMA-262 on parsed values: \<^verbatim>\<open>undefined\<close>,
  \<^verbatim>\<open>null\<close>, booleans and strings; natural numbers (the lengths that the examples
  interpolate; the digits of other numbers are not modelled, and the result for them is
  the placeholder \<^verbatim>\<open>NaN\<close>); an array by
  \<^verbatim>\<open>Array.prototype.join\<close>, which converts each element and takes \<^verbatim>\<open>null\<close> for the empty
  string; an object by \<^verbatim>\<open>Object.prototype.toString\<close>, unless the object has a member
  \<^verbatim>\<open>toString\<close> of its own: a parsed value is never callable, \<^verbatim>\<open>valueOf\<close> gives back the
  object, and the conversion throws a TypeError.
\<close>

definition silentService :: service where
  "silentService r k = Inr \<lparr>candidates = None, responseText = None\<rparr>"

definition textResponse :: "string \<Rightarrow> js_error + response" where
  "textResponse t = Inr \<lparr>candidates = None, responseText = Some t\<rparr>"

definition scriptedService :: "js_error + response \<Rightarrow> js_error + response \<Rightarrow> service" where
  "scriptedService analysisOutcome modelOutcome r k =
     (case config r of None \<Rightarrow> analysisOutcome | Some c \<Rightarrow> modelOutcome)"

definition exampleImages :: reference_images where
  "exampleImages = \<lparr>front = ''F'', back' = ''B'', left = ''L'', right = ''R''\<rparr>"

fun joinStrings :: "(js_error + string) list \<Rightarrow> js_error + string" where
  "joinStrings [] = Inr []"
| "joinStrings [r] = r"
| "joinStrings (r # rs) =
     (case r of
        Inl e \<Rightarrow> Inl e
      | Inr s \<Rightarrow> (case joinStrings rs of Inl e \<Rightarrow> Inl e | Inr t \<Rightarrow> Inr (s @ '','' @ t)))"

fun valueToString :: "json \<Rightarrow> js_error + string" where
  "valueToString JNull = Inr ''null''"
| "valueToString (JBool b) = Inr (if b then ''true'' else ''false'')"
| "valueToString (JStr s) = Inr s"
| "valueToString (JNum x) = Inr (if x = real (nat \<lfloor>x\<rfloor>) then showNat (nat \<lfloor>x\<rfloor>) else ''NaN'')"
| "valueToString (JArr xs) =
     joinStrings (map (\<lambda>x. if x = JNull then Inr [] else valueToString x) xs)"
| "valueToString (JObj ms) =
     (if map_of ms ''toString'' = None then Inr ''[object Object]''
      else Inl (TypeError ''Cannot convert object to primitive value''))"

definition referenceToString :: "json option \<Rightarrow> js_error + string" where
  "referenceToString v = (case v of None \<Rightarrow> Inr ''undefined'' | Some x \<Rightarrow> valueToString x)"

definition exampleSceneText :: string where
  "exampleSceneText =
     ''{\"backgroundColor\":\"#101010\",\"ambientLightColor\":\"#ffffff\",\"ambientLightIntensity\":0.5,\"shapes\":[{\"id\":\"body\",\"type\":\"BOX\",\"position\":[0,0.5,0],\"rotation\":[0,0,0],\"scale\":[1,1,1],\"color\":\"#ff0000\"}]}''"

definition exampleScene :: "(string \<times> json) list" where
  "exampleScene =
     [(''backgroundColor'', JStr ''#101010''),
      (''ambientLightColor'', JStr ''#ffffff''),
      (''ambientLightIntensity'', JNum 0.5),
      (''shapes'',
         JArr [JObj [(''id'', JStr ''body''), (''type'', JStr ''BOX''),
                     (''position'', JArr [JNum 0, JNum 0.5, JNum 0]),
                     (''rotation'', JArr [JNum 0, JNum 0, JNum 0]),
                     (''scale'', JArr [JNum 1, JNum 1, JNum 1]),
                     (''color'', JStr ''#ff0000'')]])]"

definition exampleService :: service where
  "exampleService = scriptedService (textResponse ''Shape: box'') (textResponse exampleSceneText)"

definition emptyObjectService :: service where
  "emptyObjectService = scriptedService (textResponse ''Shape: box'') (textResponse ''{}'')"

definition unprintableSceneText :: string where
  "unprintableSceneText = ''{\"shapes\":{\"length\":{\"toString\":1}}}''"

definition unprintableService :: service where
  "unprintableService =
     scriptedService (textResponse ''Shape: box'') (textResponse unprintableSceneText)"

definition brightSceneText :: string where
  "brightSceneText = ''{\"backgroundColor\":\"#000000\",\"ambientLightIntensity\":0.7,\"shapes\":[]}''"

definition brightService :: service where
  "brightService = scriptedService (textResponse ''Shape: box'') (textResponse brightSceneText)"

definition brokenSceneText :: string where
  "brokenSceneText = ''{\"shapes\": [ }''"

definition brokenService :: service where
  "brokenService = scriptedService (textResponse ''Shape: box'') (textResponse brokenSceneText)"

definition failingAnalysisService :: service where
  "failingAnalysisService =
     scriptedService (Inl (Error ''network down'')) (textResponse exampleSceneText)"

definition imageResponse :: "string \<Rightarrow> js_error + response" where
  "imageResponse d =
     Inr \<lparr>candidates =
            Some [\<lparr>content = Some \<lparr>parts = Some [\<lparr>inlineData = Some \<lparr>data = Some d\<rparr>\<rparr>]\<rparr>\<rparr>],
          responseText = None\<rparr>"

definition imageService :: service where
  "imageService r k =
     (case last (contents r) of
        TextPart (SingleView view prompt) \<Rightarrow> imageResponse (''png of '' @ view)
      | TextPart (ViewOfReference view) \<Rightarrow> imageResponse (''png of '' @ view)
      | _ \<Rightarrow> Inl (Error ''not an image request''))"

section \<open>Facts about the reference parser\<close>

text \<open>
  The white space that \<^verbatim>\<open>trim\<close> removes is more than what JSON allows around a value
  (it includes the vertical tab, the form feed and the no-break space), but on a text that
  parses the two agree: such a text begins and ends with JSON white space only. So the
  reference parser gives the same value on a text and on the trimmed text.
\<close>

lemma isSpace_cases:
  "isSpace c \<longleftrightarrow> c = CHR 0x09 \<or> c = CHR 0x0A \<or> c = CHR 0x0B \<or> c = CHR 0x0C \<or> c = CHR 0x0D
     \<or> c = CHR 0x20 \<or> c = CHR 0xA0"
  by (simp add: isSpace_def)

declare lexJSON.simps [simp del]

lemma lex_space:
  assumes "isSpace c"
  shows "lexJSON (c # cs) = (if c \<in> set [CHR 0x20, CHR 0x09, CHR 0x0A, CHR 0x0D] then lexJSON cs else None)"
  using assms unfolding isSpace_cases
  by (elim disjE) (simp_all add: isDigit_def lexJSON.simps)

lemma lex_leading: "lexJSON s = Some ts \<Longrightarrow> lexJSON (dropWhile isSpace s) = Some ts"
proof (induction s)
  case Nil
  then show ?case by simp
next
  case (Cons c cs)
  show ?case
  proof (cases "isSpace c")
    case True
    with Cons.prems have "lexJSON cs = Some ts"
      by (simp add: lex_space [OF True] split: if_splits)
    with Cons.IH True show ?thesis
      by simp
  next
    case False
    with Cons.prems show ?thesis
      by (simp del: lexJSON.simps)
  qed
qed

lemma prefix_single_snoc: "c \<noteq> k \<Longrightarrow> prefix [k] (u @ [c]) = prefix [k] u"
  by (cases u) auto

lemma tl_snoc_prefix: "prefix [k] u \<Longrightarrow> tl (u @ [c]) = tl u @ [c]"
  by (cases u) simp_all

lemma takeWhile_snoc: "\<not> P c \<Longrightarrow> takeWhile P (u @ [c]) = takeWhile P u"
  by (induction u) simp_all

lemma dropWhile_snoc: "\<not> P c \<Longrightarrow> dropWhile P (u @ [c]) = dropWhile P u @ [c]"
  by (induction u) simp_all

lemma numberSign_snoc:
  "c \<noteq> CHR ''-'' \<Longrightarrow> numberSign (u @ [c]) = apsnd (\<lambda>r. r @ [c]) (numberSign u)"
  by (simp add: numberSign_def prefix_single_snoc tl_snoc_prefix)

lemma spanDigits_snoc:
  "\<not> isDigit c \<Longrightarrow> spanDigits (u @ [c]) = apsnd (\<lambda>r. r @ [c]) (spanDigits u)"
  by (simp add: spanDigits_def takeWhile_snoc dropWhile_snoc)

lemma fractionPart_snoc:
  "\<not> isDigit c \<Longrightarrow> c \<noteq> CHR ''.'' \<Longrightarrow>
   fractionPart (u @ [c]) = apsnd (\<lambda>r. r @ [c]) (fractionPart u)"
  by (simp add: fractionPart_def prefix_single_snoc tl_snoc_prefix spanDigits_snoc)

lemma exponentPart_snoc:
  assumes "\<not> isDigit c" and "c \<noteq> CHR ''e''" and "c \<noteq> CHR ''E''" and "c \<noteq> CHR ''+''"
    and "c \<noteq> CHR ''-''"
  shows "exponentPart (u @ [c]) = apsnd (\<lambda>r. r @ [c]) (exponentPart u)"
proof (cases "prefix ''e'' u \<or> prefix ''E'' u")
  case False
  with assms show ?thesis
    by (simp add: exponentPart_def prefix_single_snoc)
next
  case True
  then obtain k where k: "prefix [k] u"
    by auto
  then have tl: "tl (u @ [c]) = tl u @ [c]"
    by (rule tl_snoc_prefix)
  show ?thesis
  proof (cases "prefix ''+'' (tl u)")
    case plus: True
    then have "tl (tl u @ [c]) = tl (tl u) @ [c]"
      by (rule tl_snoc_prefix)
    with True plus assms show ?thesis
      by (simp add: exponentPart_def Let_def prefix_single_snoc tl spanDigits_snoc)
  next
    case False
    with True assms show ?thesis
      by (simp add: exponentPart_def Let_def prefix_single_snoc tl spanDigits_snoc numberSign_snoc)
  qed
qed

lemma lexNumber_snoc:
  assumes "\<not> isDigit c" and "c \<noteq> CHR ''e''" and "c \<noteq> CHR ''E''" and "c \<noteq> CHR ''+''"
    and "c \<noteq> CHR ''-''" and "c \<noteq> CHR ''.''"
  shows "lexNumber (s @ [c]) = map_option (apsnd (\<lambda>r. r @ [c])) (lexNumber s)"
  using assms
  by (simp add: lexNumber_def Let_def case_prod_beta numberSign_snoc spanDigits_snoc
      fractionPart_snoc exponentPart_snoc)

lemma lexString_snoc:
  assumes "isSpace c"
  shows "lexString (ds @ [c]) = map_option (\<lambda>(s, r). (s, r @ [c])) (lexString ds)"
proof (induction ds rule: lexString.induct)
  case 1
  from assms show ?case
    unfolding isSpace_cases by (elim disjE) (simp_all add: unescape_def)
next
  case (2 d ds)
  have c: "c \<noteq> CHR 0x22" "c \<noteq> CHR ''u''" "unescape c = None" "hexValue c = None"
    using assms unfolding isSpace_cases
    by (elim disjE; simp add: unescape_def hexValue_def isDigit_def)+
  show ?case
  proof (cases "d = CHR 0x22")
    case True
    then show ?thesis by simp
  next
    case quote: False
    show ?thesis
    proof (cases "d = CHR 0x5C")
      case False
      with quote "2.IH"(3) show ?thesis
        by (simp add: option.map_comp comp_def case_prod_beta)
    next
      case True
      show ?thesis
      proof (cases ds)
        case Nil
        with True c show ?thesis by simp
      next
        case (Cons e es)
        show ?thesis
        proof (cases "e = CHR ''u''")
          case False
          with True quote Cons "2.IH"(2) show ?thesis
            by (cases "unescape e") (simp_all add: option.map_comp comp_def case_prod_beta)
        next
          case u: True
          show ?thesis
          proof (cases es)
            case Nil
            with True quote Cons u c show ?thesis by simp
          next
            case h1: (Cons h1 es1)
            show ?thesis
            proof (cases es1)
              case Nil
              with True quote Cons u c h1 show ?thesis by simp
            next
              case h2: (Cons h2 es2)
              show ?thesis
              proof (cases es2)
                case Nil
                with True quote Cons u c h1 h2 show ?thesis by simp
              next
                case h3: (Cons h3 es3)
                show ?thesis
                proof (cases es3)
                  case Nil
                  with True quote Cons u c h1 h2 h3 show ?thesis
                    by (simp add: unicodeEscape_def split: option.splits)
                next
                  case h4: (Cons h4 es4)
                  with True quote Cons u h1 h2 h3 "2.IH"(1) show ?thesis
                    by (cases "unicodeEscape h1 h2 h3 h4")
                       (simp_all add: option.map_comp comp_def case_prod_beta)
                qed
              qed
            qed
          qed
        qed
      qed
    qed
  qed
qed

lemma space_inert:
  assumes "isSpace c"
  shows "\<not> isDigit c" "c \<noteq> CHR ''e''" "c \<noteq> CHR ''E''" "c \<noteq> CHR ''+''" "c \<noteq> CHR ''-''"
    "c \<noteq> CHR ''.''" "c \<noteq> CHR 0x22" "c \<notin> set ''true''" "c \<notin> set ''false''" "c \<notin> set ''null''"
  using assms unfolding isSpace_cases by (elim disjE; simp add: isDigit_def)+

lemma prefix_snoc_other: "c \<notin> set p \<Longrightarrow> prefix p (s @ [c]) = prefix p s"
  by (auto simp: prefix_snoc)

lemma lexJSON_white:
  "d \<in> set [CHR 0x20, CHR 0x09, CHR 0x0A, CHR 0x0D] \<Longrightarrow> lexJSON (d # x) = lexJSON x"
  by (simp add: lexJSON.simps)

lemma lexJSON_structural:
  assumes "d \<in> set ''{}[]:,''"
  shows "\<exists>t. \<forall>x. lexJSON (d # x) = map_option ((#) t) (lexJSON x)"
proof -
  from assms consider "d = CHR ''{''" | "d = CHR ''}''" | "d = CHR ''[''" | "d = CHR '']''"
    | "d = CHR '':''" | "d = CHR '',''"
    by auto
  then show ?thesis
  proof cases
    case 1
    then have "\<forall>x. lexJSON (d # x) = map_option ((#) TLBrace) (lexJSON x)"
      by (simp add: lexJSON.simps)
    then show ?thesis ..
  next
    case 2
    then have "\<forall>x. lexJSON (d # x) = map_option ((#) TRBrace) (lexJSON x)"
      by (simp add: lexJSON.simps)
    then show ?thesis ..
  next
    case 3
    then have "\<forall>x. lexJSON (d # x) = map_option ((#) TLBrack) (lexJSON x)"
      by (simp add: lexJSON.simps)
    then show ?thesis ..
  next
    case 4
    then have "\<forall>x. lexJSON (d # x) = map_option ((#) TRBrack) (lexJSON x)"
      by (simp add: lexJSON.simps)
    then show ?thesis ..
  next
    case 5
    then have "\<forall>x. lexJSON (d # x) = map_option ((#) TColon) (lexJSON x)"
      by (simp add: lexJSON.simps)
    then show ?thesis ..
  next
    case 6
    then have "\<forall>x. lexJSON (d # x) = map_option ((#) TComma) (lexJSON x)"
      by (simp add: lexJSON.simps)
    then show ?thesis ..
  qed
qed

lemma drop_snoc_long: "n \<le> length u \<Longrightarrow> drop n (u @ [c]) = drop n u @ [c]"
  by simp

lemma lexJSON_quote:
  "lexJSON (CHR 0x22 # x) =
     (case lexString x of
        None \<Rightarrow> None
      | Some (s, r) \<Rightarrow> map_option ((#) (TVal (JStr s))) (lexJSON r))"
  by (simp add: lexJSON.simps)

lemma lexJSON_number:
  assumes "d = CHR ''-'' \<or> isDigit d"
  shows "lexJSON (d # x) =
     (case lexNumber (d # x) of
        None \<Rightarrow> None
      | Some (v, r) \<Rightarrow> map_option ((#) (TVal (JNum v))) (lexJSON r))"
proof -
  from assms have "d \<in> set ''-0123456789''"
    by (auto simp: isDigit_def)
  then have "d \<notin> set [CHR 0x20, CHR 0x09, CHR 0x0A, CHR 0x0D]" "d \<noteq> CHR ''{''" "d \<noteq> CHR ''}''"
    "d \<noteq> CHR ''[''" "d \<noteq> CHR '']''" "d \<noteq> CHR '':''" "d \<noteq> CHR '',''" "d \<noteq> CHR 0x22"
    by auto
  with assms show ?thesis
    by (simp only: lexJSON.simps if_False if_True)
qed

lemma lexJSON_word:
  assumes "d \<notin> set [CHR 0x20, CHR 0x09, CHR 0x0A, CHR 0x0D]" and "d \<notin> set ''{}[]:,''"
    and "d \<noteq> CHR 0x22" and "\<not> (d = CHR ''-'' \<or> isDigit d)"
  shows "lexJSON (d # x) =
     (if prefix ''true'' (d # x) then map_option ((#) (TVal (JBool True))) (lexJSON (drop 4 (d # x)))
      else if prefix ''false'' (d # x)
        then map_option ((#) (TVal (JBool False))) (lexJSON (drop 5 (d # x)))
      else if prefix ''null'' (d # x) then map_option ((#) (TVal JNull)) (lexJSON (drop 4 (d # x)))
      else None)"
proof -
  from assms(2) have "d \<noteq> CHR ''{''" "d \<noteq> CHR ''}''" "d \<noteq> CHR ''[''" "d \<noteq> CHR '']''"
    "d \<noteq> CHR '':''" "d \<noteq> CHR '',''"
    by auto
  with assms(1,3,4) show ?thesis
    by (simp only: lexJSON.simps if_False)
qed

lemma lexJSON_snoc:
  assumes "isSpace c"
  shows "lexJSON (s @ [c]) = Some ts \<Longrightarrow> lexJSON s = Some ts"
proof (induction s arbitrary: ts rule: lexJSON.induct)
  case 1
  then show ?case
    using lex_space [OF assms, of "[]"] by (simp add: lexJSON.simps split: if_splits)
next
  case (2 d ds)
  note inert = space_inert [OF assms]
  note str = lexString_snoc [OF assms]
  note num = lexNumber_snoc [OF inert(1-6)]
  from "2.prems" have run: "lexJSON (d # (ds @ [c])) = Some ts"
    by simp
  show ?case
  proof (cases "d \<in> set [CHR 0x20, CHR 0x09, CHR 0x0A, CHR 0x0D]")
    case True
    from run have "lexJSON (ds @ [c]) = Some ts"
      unfolding lexJSON_white [OF True] .
    with "2.IH"(1) [OF True] have "lexJSON ds = Some ts" .
    then show ?thesis
      unfolding lexJSON_white [OF True] .
  next
    case ws: False
    show ?thesis
    proof (cases "d \<in> set ''{}[]:,''")
      case True
      from lexJSON_structural [OF True] obtain t
        where t: "\<And>x. lexJSON (d # x) = map_option ((#) t) (lexJSON x)"
        by blast
      from run obtain ts' where ts': "lexJSON (ds @ [c]) = Some ts'" and ts: "ts = t # ts'"
        unfolding t by auto
      from True consider "d = CHR ''{''" | "d = CHR ''}''" | "d = CHR ''[''" | "d = CHR '']''"
        | "d = CHR '':''" | "d = CHR '',''"
        by auto
      then have "lexJSON ds = Some ts'"
      proof cases
        case 1 with ws ts' "2.IH"(2) show ?thesis by simp
      next
        case 2 with ws ts' "2.IH"(3) show ?thesis by simp
      next
        case 3 with ws ts' "2.IH"(4) show ?thesis by simp
      next
        case 4 with ws ts' "2.IH"(5) show ?thesis by simp
      next
        case 5 with ws ts' "2.IH"(6) show ?thesis by simp
      next
        case 6 with ws ts' "2.IH"(7) show ?thesis by simp
      qed
      then show ?thesis
        unfolding t ts by simp
    next
      case st: False
      then have st': "d \<noteq> CHR ''{''" "d \<noteq> CHR ''}''" "d \<noteq> CHR ''[''" "d \<noteq> CHR '']''"
        "d \<noteq> CHR '':''" "d \<noteq> CHR '',''"
        by auto
      show ?thesis
      proof (cases "d = CHR 0x22")
        case True
        from run have r: "(case lexString (ds @ [c]) of None \<Rightarrow> None
            | Some (s, r) \<Rightarrow> map_option ((#) (TVal (JStr s))) (lexJSON r)) = Some ts"
          unfolding True lexJSON_quote .
        then obtain s0 r0 where s0: "lexString ds = Some (s0, r0)"
          unfolding str by (cases "lexString ds") auto
        with r obtain ts' where ts': "lexJSON (r0 @ [c]) = Some ts'"
          and ts: "ts = TVal (JStr s0) # ts'"
          unfolding str by auto
        have "lexJSON r0 = Some ts'"
          using "2.IH"(8) [OF ws st' True s0 refl ts'] .
        with s0 ts show ?thesis
          unfolding True lexJSON_quote by simp
      next
        case q: False
        show ?thesis
        proof (cases "d = CHR ''-'' \<or> isDigit d")
          case True
          have "lexNumber (d # (ds @ [c])) = map_option (apsnd (\<lambda>r. r @ [c])) (lexNumber (d # ds))"
            using num [of "d # ds"] by simp
          with run have r: "(case map_option (apsnd (\<lambda>r. r @ [c])) (lexNumber (d # ds)) of
              None \<Rightarrow> None
            | Some (x, r) \<Rightarrow> map_option ((#) (TVal (JNum x))) (lexJSON r)) = Some ts"
            unfolding lexJSON_number [OF True] by simp
          then obtain x0 r0 where x0: "lexNumber (d # ds) = Some (x0, r0)"
            by (cases "lexNumber (d # ds)") auto
          with r obtain ts' where ts': "lexJSON (r0 @ [c]) = Some ts'"
            and ts: "ts = TVal (JNum x0) # ts'"
            by auto
          have "lexJSON r0 = Some ts'"
            using "2.IH"(9) [OF ws st' q True x0 refl ts'] .
          with x0 ts show ?thesis
            unfolding lexJSON_number [OF True] by simp
        next
          case n: False
          note word = lexJSON_word [OF ws st q n]
          have pre: "prefix p (d # (ds @ [c])) = prefix p (d # ds)" if "c \<notin> set p" for p
            using prefix_snoc_other [OF that, of "d # ds"] by simp
          have drp: "drop n (d # (ds @ [c])) = drop n (d # ds) @ [c]" if "n \<le> length (d # ds)" for n
            using drop_snoc_long [OF that, of c] unfolding append_Cons .
          from run have run': "(if prefix ''true'' (d # ds)
                then map_option ((#) (TVal (JBool True))) (lexJSON (drop 4 (d # (ds @ [c]))))
              else if prefix ''false'' (d # ds)
                then map_option ((#) (TVal (JBool False))) (lexJSON (drop 5 (d # (ds @ [c]))))
              else if prefix ''null'' (d # ds)
                then map_option ((#) (TVal JNull)) (lexJSON (drop 4 (d # (ds @ [c]))))
              else None) = Some ts"
            unfolding word pre [OF inert(8)] pre [OF inert(9)] pre [OF inert(10)] .
          show ?thesis
          proof (cases "prefix ''true'' (d # ds)")
            case True
            from prefix_length_le [OF True] have "4 \<le> length (d # ds)"
              by simp
            then have d4: "drop 4 (d # (ds @ [c])) = drop 4 (d # ds) @ [c]"
              by (rule drp)
            from run' True obtain ts' where
              ts': "lexJSON (drop 4 (d # ds) @ [c]) = Some ts'" and ts: "ts = TVal (JBool True) # ts'"
              unfolding d4 by (auto simp only: if_True)
            have "lexJSON (drop 4 (d # ds)) = Some ts'"
              using "2.IH"(10) [OF ws st' q n True ts'] .
            with True ts show ?thesis
              unfolding word by (simp only: if_True option.map)
          next
            case t: False
            show ?thesis
            proof (cases "prefix ''false'' (d # ds)")
              case True
              from prefix_length_le [OF True] have "5 \<le> length (d # ds)"
                by simp
              then have d5: "drop 5 (d # (ds @ [c])) = drop 5 (d # ds) @ [c]"
                by (rule drp)
              from run' t True obtain ts' where
                ts': "lexJSON (drop 5 (d # ds) @ [c]) = Some ts'"
                and ts: "ts = TVal (JBool False) # ts'"
                unfolding d5 by (auto simp only: if_True if_False)
              have "lexJSON (drop 5 (d # ds)) = Some ts'"
                using "2.IH"(11) [OF ws st' q n t True ts'] .
              with t True ts show ?thesis
                unfolding word by (simp only: if_True if_False option.map)
            next
              case f: False
              show ?thesis
              proof (cases "prefix ''null'' (d # ds)")
                case True
                from prefix_length_le [OF True] have "4 \<le> length (d # ds)"
                  by simp
                then have d4: "drop 4 (d # (ds @ [c])) = drop 4 (d # ds) @ [c]"
                  by (rule drp)
                from run' t f True obtain ts' where
                  ts': "lexJSON (drop 4 (d # ds) @ [c]) = Some ts'" and ts: "ts = TVal JNull # ts'"
                  unfolding d4 by (auto simp only: if_True if_False)
                have "lexJSON (drop 4 (d # ds)) = Some ts'"
                  using "2.IH"(12) [OF ws st' q n t f True ts'] .
                with t f True ts show ?thesis
                  unfolding word by (simp only: if_True if_False option.map)
              next
                case False
                with run' t f show ?thesis
                  by (simp only: if_False option.distinct)
              qed
            qed
          qed
        qed
      qed
    qed
  qed
qed

lemma lex_trailing: "lexJSON s = Some ts \<Longrightarrow> lexJSON (rev (dropWhile isSpace (rev s))) = Some ts"
proof (induction s rule: rev_induct)
  case Nil
  then show ?case by simp
next
  case (snoc c cs)
  show ?case
  proof (cases "isSpace c")
    case True
    from snoc.prems have "lexJSON cs = Some ts"
      by (rule lexJSON_snoc [OF True])
    with snoc.IH True show ?thesis
      by simp
  next
    case False
    with snoc.prems show ?thesis
      by simp
  qed
qed

lemma lexJSON_trim: "lexJSON s = Some ts \<Longrightarrow> lexJSON (trim s) = Some ts"
  unfolding trim_def by (rule lex_trailing, rule lex_leading)

lemma referenceParse_trim:
  assumes "referenceParse s = Some v"
  shows "referenceParse (trim s) = referenceParse s"
proof -
  from assms obtain ts where ts: "lexJSON s = Some ts"
    unfolding referenceParse_def by (cases "lexJSON s") simp_all
  show ?thesis
    unfolding referenceParse_def ts lexJSON_trim [OF ts] ..
qed

section \<open>Facts about the repair ladder\<close>

lemma matchCount_count_list: "matchCount c s = int (count_list s c)"
  by (induction s) (simp_all add: matchCount_def)

lemma closingSuffix_counts:
  "closingSuffix t =
     replicate (count_list t CHR ''['' - count_list t CHR '']'') CHR '']''
     @ replicate (count_list t CHR ''{'' - count_list t CHR ''}'') CHR ''}''"
  by (simp add: closingSuffix_def matchCount_count_list nat_diff_distrib')

lemma length_takeWhile_found: "c \<in> set s \<Longrightarrow> length (takeWhile (\<lambda>x. x \<noteq> c) s) < length s"
  by (induction s) auto

lemma truncate_at_last:
  assumes "c \<in> set s"
  shows "substring s 0 (lastIndexOf s c + 1) = rev (dropWhile (\<lambda>x. x \<noteq> c) (rev s))"
proof -
  let ?n = "length (takeWhile (\<lambda>x. x \<noteq> c) (rev s))"
  from assms have "c \<in> set (rev s)"
    by simp
  then have "?n < length (rev s)"
    by (rule length_takeWhile_found)
  then have n: "?n < length s"
    by simp
  then have "nat (lastIndexOf s c + 1) = length s - ?n"
    using assms by (simp add: lastIndexOf_def)
  then have "substring s 0 (lastIndexOf s c + 1) = take (length s - ?n) s"
    by (simp add: substring_def)
  also have "\<dots> = rev (drop ?n (rev s))"
    by (simp add: rev_drop)
  also have "drop ?n (rev s) = dropWhile (\<lambda>x. x \<noteq> c) (rev s)"
    by (rule dropWhile_eq_drop [symmetric])
  finally show ?thesis .
qed

lemma lastIndexOf_found: "c \<in> set s \<Longrightarrow> lastIndexOf s c \<noteq> - 1"
proof -
  assume "c \<in> set s"
  then have "c \<in> set (rev s)"
    by simp
  then have "length (takeWhile (\<lambda>x. x \<noteq> c) (rev s)) < length (rev s)"
    by (rule length_takeWhile_found)
  with \<open>c \<in> set s\<close> show ?thesis
    by (simp add: lastIndexOf_def)
qed

lemma lastIndexOf_missing: "c \<notin> set s \<Longrightarrow> lastIndexOf s c = - 1"
  by (simp add: lastIndexOf_def)

lemma truncationRepair_found:
  assumes "CHR ''}'' \<in> set r"
  shows "truncationRepair r =
     Some (rev (dropWhile (\<lambda>x. x \<noteq> CHR ''}'') (rev r))
           @ closingSuffix (rev (dropWhile (\<lambda>x. x \<noteq> CHR ''}'') (rev r))))"
  using lastIndexOf_found [OF assms] truncate_at_last [OF assms]
  by (simp add: truncationRepair_def Let_def)

lemma split_at_last:
  assumes "c \<in> set s"
  shows "s = rev (dropWhile (\<lambda>x. x \<noteq> c) (rev s)) @ rev (takeWhile (\<lambda>x. x \<noteq> c) (rev s))"
    and "c \<notin> set (rev (takeWhile (\<lambda>x. x \<noteq> c) (rev s)))"
    and "rev (dropWhile (\<lambda>x. x \<noteq> c) (rev s)) \<noteq> []"
    and "last (rev (dropWhile (\<lambda>x. x \<noteq> c) (rev s))) = c"
proof -
  have "rev (dropWhile (\<lambda>x. x \<noteq> c) (rev s)) @ rev (takeWhile (\<lambda>x. x \<noteq> c) (rev s))
      = rev (takeWhile (\<lambda>x. x \<noteq> c) (rev s) @ dropWhile (\<lambda>x. x \<noteq> c) (rev s))"
    by (simp only: rev_append)
  also have "\<dots> = rev (rev s)"
    by (simp only: takeWhile_dropWhile_id)
  also have "\<dots> = s"
    by simp
  finally show "s = rev (dropWhile (\<lambda>x. x \<noteq> c) (rev s)) @ rev (takeWhile (\<lambda>x. x \<noteq> c) (rev s))"
    by (rule sym)
  show "c \<notin> set (rev (takeWhile (\<lambda>x. x \<noteq> c) (rev s)))"
    by (auto dest: set_takeWhileD)
  from assms have ne: "dropWhile (\<lambda>x. x \<noteq> c) (rev s) \<noteq> []"
    by (simp add: dropWhile_eq_Nil_conv)
  then show "rev (dropWhile (\<lambda>x. x \<noteq> c) (rev s)) \<noteq> []"
    by simp
  from ne have "hd (dropWhile (\<lambda>x. x \<noteq> c) (rev s)) = c"
    using hd_dropWhile [of "\<lambda>x. x \<noteq> c" "rev s"] by simp
  with ne show "last (rev (dropWhile (\<lambda>x. x \<noteq> c) (rev s))) = c"
    by (simp add: last_rev)
qed

lemma sublist_fence_json: "prefix ''```json'' s \<Longrightarrow> sublist ''```'' s"
proof -
  assume "prefix ''```json'' s"
  then obtain r where "s = ''```json'' @ r"
    by (auto simp: prefix_def)
  then have "s = [] @ ''```'' @ (''json'' @ r)"
    by simp
  then show ?thesis
    unfolding sublist_def by blast
qed

lemma sublist_after_space: "prefix ''```'' (dropWhile P s) \<Longrightarrow> sublist ''```'' s"
proof -
  assume "prefix ''```'' (dropWhile P s)"
  then obtain r where "dropWhile P s = ''```'' @ r"
    by (auto simp: prefix_def)
  then have "s = takeWhile P s @ ''```'' @ r"
    by (metis takeWhile_dropWhile_id)
  then show ?thesis
    unfolding sublist_def by blast
qed

lemma stripFences_id: "\<not> sublist ''```'' s \<Longrightarrow> stripFences s = s"
proof (induction s rule: stripFences.induct)
  case 1
  show ?case by simp
next
  case (2 c cs)
  from "2.prems" have a: "\<not> prefix ''```json'' (c # cs)"
    using sublist_fence_json by blast
  from "2.prems" have b: "\<not> prefix ''```'' (dropWhile isSpace (c # cs))"
    using sublist_after_space by blast
  from "2.prems" have "\<not> sublist ''```'' cs"
    by (meson sublist_Cons_right)
  with "2.IH"(3) a b have "stripFences cs = cs"
    by blast
  moreover have "stripFences (c # cs) = c # stripFences cs"
    by (simp only: stripFences.simps a b if_False)
  ultimately show ?case
    by (simp only:)
qed

lemma set_trim: "set (trim s) \<subseteq> set s"
  by (auto simp: trim_def dest!: set_dropWhileD)

lemma cleanMarkdown_plain:
  assumes "\<not> sublist ''```'' text"
    and "CHR ''{'' \<notin> set text \<or> prefix ''{'' (trim text)"
  shows "cleanMarkdown text = trim text"
proof -
  from assms(2) have "(if indexOf (trim text) CHR ''{'' \<noteq> - 1
      then substringFrom (trim text) (indexOf (trim text) CHR ''{'') else trim text) = trim text"
  proof
    assume "CHR ''{'' \<notin> set text"
    then have "CHR ''{'' \<notin> set (trim text)"
      using set_trim by blast
    then show ?thesis
      by (simp add: indexOf_def)
  next
    assume "prefix ''{'' (trim text)"
    then obtain r where "trim text = CHR ''{'' # r"
      by (auto simp: prefix_def)
    then show ?thesis
      by (simp add: indexOf_def substringFrom_def)
  qed
  then show ?thesis
    by (simp add: cleanMarkdown_def Let_def stripFences_id [OF assms(1)])
qed

section \<open>Facts about the retry loop\<close>

declare attempts.simps [simp del] showNat.simps [simp del]

lemma showNat_3: "showNat 3 = ''3''"
  by code_simp

lemma attempts_past: "retries < attempt \<Longrightarrow>
  attempts ai req view retries attempt lastError = (Inl (exhausted view retries lastError), [])"
  by (subst attempts.simps) simp

lemma attempts_fail:
  assumes "attempt \<le> retries" and "k = attempt - 1" and "attemptView ai req view k = Inl e"
    and "n = attempt + 1" and "attempts ai req view retries n (Some e) = (result, later)"
    and "waits = (if attempt < retries then [Delay (1000 * 2 ^ (attempt - 1))] else [])"
  shows "attempts ai req view retries attempt lastError = (result, Request req # waits @ later)"
  using assms by (subst attempts.simps) simp

lemma attempts_ok:
  assumes "attempt \<le> retries" and "k = attempt - 1" and "attemptView ai req view k = Inr img"
  shows "attempts ai req view retries attempt lastError = (Inr img, [Request req])"
  using assms by (subst attempts.simps) simp

lemma firstImage_nonempty: "firstImage ps = Some d \<Longrightarrow> d \<noteq> []"
  by (induction ps) (auto split: option.splits if_splits)

lemma attemptView_nonempty: "attemptView ai req view k = Inr img \<Longrightarrow> img \<noteq> []"
  by (auto simp: attemptView_def imageOf_def firstImage_nonempty
      split: sum.splits option.splits list.splits)

lemma set_requests: "set (requests t) = {r. Request r \<in> set t}"
  by (induction t rule: requests.induct) auto

lemma attempts_trace:
  "set (requests (snd (attempts ai req view retries attempt lastError))) \<subseteq> {req}"
proof (induction ai req view retries attempt lastError rule: attempts.induct)
  case (1 ai req view retries attempt lastError)
  show ?case
  proof (cases "attempt \<le> retries")
    case False
    then show ?thesis
      by (subst attempts.simps) simp
  next
    case True
    show ?thesis
    proof (cases "attemptView ai req view (attempt - 1)")
      case (Inr img)
      with True show ?thesis
        by (subst attempts.simps) simp
    next
      case (Inl e)
      with True "1.IH" [OF True Inl refl] show ?thesis
        by (subst attempts.simps) (auto simp: case_prod_beta set_requests)
    qed
  qed
qed

lemma attempts_image:
  "fst (attempts ai req view retries attempt lastError) = Inr img \<Longrightarrow> img \<noteq> []"
proof (induction ai req view retries attempt lastError rule: attempts.induct)
  case (1 ai req view retries attempt lastError)
  show ?case
  proof (cases "attempt \<le> retries")
    case False
    with "1.prems" show ?thesis
      by (subst (asm) attempts.simps) simp
  next
    case True
    show ?thesis
    proof (cases "attemptView ai req view (attempt - 1)")
      case (Inr x)
      with True "1.prems" have "x = img"
        by (subst (asm) attempts.simps) simp
      with Inr show ?thesis
        using attemptView_nonempty by blast
    next
      case (Inl e)
      with True "1.prems" have "fst (attempts ai req view retries (attempt + 1) (Some e)) = Inr img"
        by (subst (asm) attempts.simps) (simp add: case_prod_beta)
      with "1.IH" [OF True Inl refl] show ?thesis
        by simp
    qed
  qed
qed

lemma attempts_first:
  "attempt \<le> retries \<Longrightarrow>
   \<exists>more. snd (attempts ai req view retries attempt lastError) = Request req # more"
  by (subst attempts.simps) (auto simp: case_prod_beta split: sum.splits)


lemma generateSingleView_requests:
  assumes "generateSingleView ai prompt view ref 3 = (r, t)"
  shows "set (requests t) \<subseteq> {viewRequest prompt view ref}"
    and "\<exists>more. t = Request (viewRequest prompt view ref) # more"
    and "r = Inr img \<Longrightarrow> img \<noteq> []"
proof -
  let ?a = "attempts ai (viewRequest prompt view ref) view 3 1 None"
  from assms have r: "r = fst ?a" and t: "t = snd ?a"
    by (simp_all add: generateSingleView_def)
  show "set (requests t) \<subseteq> {viewRequest prompt view ref}"
    unfolding t by (rule attempts_trace)
  show "\<exists>more. t = Request (viewRequest prompt view ref) # more"
    unfolding t by (rule attempts_first) simp
  show "img \<noteq> []" if "r = Inr img"
    using that attempts_image [of ai "viewRequest prompt view ref" view 3 1 None img]
    by (simp add: r)
qed

lemma promiseAll_Inr:
  "Inr imgs \<in> promiseAll f b l r \<longleftrightarrow>
     front imgs = f \<and> b = Inr (back' imgs) \<and> l = Inr (left imgs) \<and> r = Inr (right imgs)"
  by (cases imgs; cases b; cases l; cases r) (auto simp: promiseAll_def)

lemma interleavings_requests:
  assumes "t \<in> interleavings xs ys zs"
  shows "set (requests t) = set (requests xs) \<union> set (requests ys) \<union> set (requests zs)"
proof -
  from assms obtain u where "u \<in> shuffles xs ys" and "t \<in> shuffles u zs"
    by (auto simp: interleavings_def)
  then have "set t = set xs \<union> set ys \<union> set zs"
    by (simp add: set_shuffles)
  then show ?thesis
    by (auto simp: set_requests)
qed

lemma viewRequest_contents:
  "contents (viewRequest prompt view None) = [TextPart (SingleView view prompt)]"
  "f \<noteq> [] \<Longrightarrow>
     contents (viewRequest prompt view (Some f))
       = [InlineData ''image/png'' f, TextPart (ViewOfReference view)]"
  by (simp_all add: viewRequest_def truthyString_def)

section \<open>Facts about the workflow\<close>

lemma shapesLength_Inr:
  "shapesLength v = Inr n \<longleftrightarrow>
     (\<exists>ms s. v = JObj ms \<and> map_of ms ''shapes'' = Some s \<and> s \<noteq> JNull \<and> getLength (Some s) = Inr n)"
  by (cases v) (auto simp: shapesLength_def getShapes_def getLength_def split: option.splits json.splits)

lemma getLength_defined: "s \<noteq> JNull \<Longrightarrow> \<exists>n. getLength (Some s) = Inr n"
  by (cases s) (simp_all add: getLength_def)

lemma workflow_returns:
  assumes "ai (modelRequest prompt refs (analysisTextOf (ai (analysisRequest prompt refs) 0))) 0
             = Inr modelResponse"
    and "parseModelText JSON_parse (responseText modelResponse) = Inr sceneData"
    and "shapesLength sceneData = Inr n"
    and "ToString n = Inr shapeCount"
  shows "generateSceneWorkflow JSON_parse ToString ai prompt refs =
     (stage1Events (analysisRequest prompt refs)
        @ stage2Start (modelRequest prompt refs (analysisTextOf (ai (analysisRequest prompt refs) 0)))
        @ laterStages shapeCount sceneData, None)"
  using assms by (simp add: generateSceneWorkflow_def Let_def)

lemma workflow_throws:
  assumes "generateSceneWorkflow JSON_parse ToString ai prompt refs = (trace, Some e)"
  shows "trace = stage1Events (analysisRequest prompt refs)
        @ stage2Start (modelRequest prompt refs (analysisTextOf (ai (analysisRequest prompt refs) 0)))"
  using assms by (auto simp: generateSceneWorkflow_def Let_def split: sum.splits)

lemma workflow_returned:
  assumes "generateSceneWorkflow JSON_parse ToString ai prompt refs = (trace, None)"
  shows "\<exists>ms s shapeCount. map_of ms ''shapes'' = Some s \<and> s \<noteq> JNull \<and>
     trace = stage1Events (analysisRequest prompt refs)
        @ stage2Start (modelRequest prompt refs (analysisTextOf (ai (analysisRequest prompt refs) 0)))
        @ laterStages shapeCount (JObj ms)"
  using assms
  by (auto simp: generateSceneWorkflow_def Let_def shapesLength_Inr split: sum.splits)

lemma events_started [simp]:
  "events (stage1Events a @ stage2Start m @ rest) =
     [\<lparr>stageId = 1,
       logs = [''Initializing visual cortex...'', ''Loading reference images into context...''],
       sceneConfig = None\<rparr>,
      \<lparr>stageId = 1,
       logs = [''Visual decomposition complete.'',
               ''Analysis Result: Recommended Poly Count > 100k'',
               ''Analysis Result: Topology = Quad-dominant (Subdivision Ready)'',
               ''Material classification done.''],
       sceneConfig = None\<rparr>,
      \<lparr>stageId = 2,
       logs = [''Converting 100k+ poly target to Voxel Grid...'',
               ''Initializing high-density primitive clustering...'',
               ''Approximating Quad-topology with micro-structures...'',
               ''Sculpting primary volumes...''],
       sceneConfig = None\<rparr>] @ events rest"
  by (simp add: stage1Events_def stage2Start_def)

lemma requests_started [simp]:
  "requests (stage1Events a @ stage2Start m @ rest) = a # m # requests rest"
  by (simp add: stage1Events_def stage2Start_def)

lemma requests_laterStages [simp]: "requests (laterStages c v) = []"
  by (simp add: laterStages_def)

lemma stageIds_laterStages [simp]: "map stageId (events (laterStages c v)) = [2, 3, 3, 4, 4]"
  by (simp add: laterStages_def)

lemma configs_laterStages [simp]:
  "map sceneConfig (events (laterStages c v)) = [Some v, None, Some v, None, Some (brighten v)]"
  by (simp add: laterStages_def)

lemma brighten_object:
  "brighten (JObj ms) = JObj (AList.update ''ambientLightIntensity'' (JNum 0.7) ms)"
  by (simp add: brighten_def spread_def)

lemma requests_distinct: "analysisRequest p r \<noteq> modelRequest p' r' a"
  by (simp add: analysisRequest_def modelRequest_def)

lemma cleanAndParseJSON_exhausted:
  assumes "JSON_parse (cleanMarkdown t) = None"
    and "JSON_parse (syntaxRepairs (cleanMarkdown t)) = None"
    and "\<forall>closedText. truncationRepair (syntaxRepairs (cleanMarkdown t)) = Some closedText
           \<longrightarrow> JSON_parse closedText = None"
  shows "cleanAndParseJSON JSON_parse t = Inl parseFailure"
  using assms by (simp add: cleanAndParseJSON_def Let_def split: option.splits)

lemma workflow_depends:
  assumes "analysisTextOf (ai (analysisRequest prompt refs) 0)
             = analysisTextOf (ai' (analysisRequest prompt refs) 0)"
    and "ai (modelRequest prompt refs (analysisTextOf (ai (analysisRequest prompt refs) 0))) 0
           = ai' (modelRequest prompt refs (analysisTextOf (ai (analysisRequest prompt refs) 0))) 0"
  shows "generateSceneWorkflow JSON_parse ToString ai prompt refs
           = generateSceneWorkflow JSON_parse ToString ai' prompt refs"
  unfolding generateSceneWorkflow_def Let_def assms(1) [symmetric] assms(2) [symmetric]
  by (rule refl)

lemma foldl_keepConfig_last:
  assumes "\<forall>e \<in> set evs. \<forall>c. sceneConfig e = Some c \<longrightarrow> truthy c"
  shows "foldl keepConfig None evs = lastSceneCarried evs"
  using assms
proof (induction evs rule: rev_induct)
  case Nil
  show ?case by (simp add: lastSceneCarried_def)
next
  case (snoc e evs)
  then have IH: "foldl keepConfig None evs = lastSceneCarried evs"
    by simp
  have step: "foldl keepConfig None (evs @ [e]) = keepConfig (lastSceneCarried evs) e"
    by (simp add: IH)
  show ?case
  proof (cases "sceneConfig e")
    case None
    then have "keepConfig (lastSceneCarried evs) e = lastSceneCarried evs"
      by (simp add: keepConfig_def)
    moreover from None have "lastSceneCarried (evs @ [e]) = lastSceneCarried evs"
      by (simp add: lastSceneCarried_def)
    ultimately show ?thesis
      by (simp only: step)
  next
    case (Some c)
    with snoc.prems have "truthy c"
      by simp
    with Some have "keepConfig (lastSceneCarried evs) e = Some c"
      by (simp add: keepConfig_def)
    moreover from Some have "lastSceneCarried (evs @ [e]) = Some c"
      by (simp add: lastSceneCarried_def)
    ultimately show ?thesis
      by (simp only: step)
  qed
qed

lemma truthy_object [simp]: "truthy (JObj ms)"
  by (simp add: truthy_def)

lemma workflow_events_truthy:
  "\<forall>e \<in> set (events (fst (generateSceneWorkflow JSON_parse ToString ai prompt refs))).
     \<forall>c. sceneConfig e = Some c \<longrightarrow> truthy c"
proof (cases "snd (generateSceneWorkflow JSON_parse ToString ai prompt refs)")
  case None
  then have "generateSceneWorkflow JSON_parse ToString ai prompt refs
      = (fst (generateSceneWorkflow JSON_parse ToString ai prompt refs), None)"
    by (metis prod.collapse)
  from workflow_returned [OF this] obtain ms s shapeCount where
    "fst (generateSceneWorkflow JSON_parse ToString ai prompt refs)
      = stage1Events (analysisRequest prompt refs)
        @ stage2Start (modelRequest prompt refs (analysisTextOf (ai (analysisRequest prompt refs) 0)))
        @ laterStages shapeCount (JObj ms)"
    by blast
  then show ?thesis
    unfolding events_started by (simp add: laterStages_def brighten_object)
next
  case (Some e)
  then have "generateSceneWorkflow JSON_parse ToString ai prompt refs
      = (fst (generateSceneWorkflow JSON_parse ToString ai prompt refs), Some e)"
    by (metis prod.collapse)
  from workflow_throws [OF this] have
    "events (fst (generateSceneWorkflow JSON_parse ToString ai prompt refs))
      = events (stage1Events (analysisRequest prompt refs)
        @ stage2Start (modelRequest prompt refs (analysisTextOf (ai (analysisRequest prompt refs) 0)))
        @ [])"
    by simp
  then show ?thesis
    unfolding events_started by simp
qed

section \<open>The example runs\<close>

lemma exampleScene_parsed: "cleanAndParseJSON referenceParse exampleSceneText = Inr (JObj exampleScene)"
  by code_simp

lemma exampleService_model:
  "exampleService (modelRequest p r a) k = Inr \<lparr>candidates = None, responseText = Some exampleSceneText\<rparr>"
  by (simp add: exampleService_def scriptedService_def modelRequest_def textResponse_def)

lemma emptyObject_parsed: "cleanAndParseJSON referenceParse ''{}'' = Inr (JObj [])"
  by code_simp

lemma unprintable_parsed:
  "cleanAndParseJSON referenceParse unprintableSceneText
     = Inr (JObj [(''shapes'', JObj [(''length'', JObj [(''toString'', JNum 1)])])])"
  by code_simp

lemma brightScene_parsed:
  "cleanAndParseJSON referenceParse brightSceneText =
     Inr (JObj [(''backgroundColor'', JStr ''#000000''), (''ambientLightIntensity'', JNum 0.7),
                (''shapes'', JArr [])])"
  by code_simp

lemma exampleRun:
  "generateSceneWorkflow referenceParse referenceToString exampleService ''a cat'' exampleImages =
     (stage1Events (analysisRequest ''a cat'' exampleImages)
        @ stage2Start (modelRequest ''a cat'' exampleImages ''Shape: box'')
        @ laterStages ''1'' (JObj exampleScene), None)"
proof -
  have a: "analysisTextOf (exampleService (analysisRequest ''a cat'' exampleImages) 0) = ''Shape: box''"
    by (simp add: exampleService_def scriptedService_def analysisRequest_def textResponse_def
        analysisTextOf_def)
  have len: "shapesLength (JObj exampleScene) = Inr (Some (JNum 1))"
    by (simp add: shapesLength_def getShapes_def getLength_def exampleScene_def)
  have "showNat 1 = ''1''"
    by code_simp
  then have s: "referenceToString (Some (JNum 1)) = Inr ''1''"
    by (simp add: referenceToString_def)
  show ?thesis
    using workflow_returns [of exampleService "''a cat''" exampleImages _ referenceParse
        "JObj exampleScene" "Some (JNum 1)" referenceToString "''1''",
        OF exampleService_model _ len s]
    by (simp add: parseModelText_def exampleScene_parsed a)
qed

lemma brokenService_model:
  "brokenService (modelRequest p r a) k
     = Inr \<lparr>candidates = None, responseText = Some brokenSceneText\<rparr>"
  by (simp add: brokenService_def scriptedService_def modelRequest_def textResponse_def)

lemma brokenScene_exhausted:
  "referenceParse (cleanMarkdown brokenSceneText) = None"
  "referenceParse (syntaxRepairs (cleanMarkdown brokenSceneText)) = None"
  "truncationRepair (syntaxRepairs (cleanMarkdown brokenSceneText)) = Some ''{\"shapes\": [ }]''"
  "referenceParse ''{\"shapes\": [ }]'' = None"
  by code_simp+

lemma brokenRun:
  "generateSceneWorkflow referenceParse referenceToString brokenService ''a cat'' exampleImages
     = (stage1Events (analysisRequest ''a cat'' exampleImages)
          @ stage2Start (modelRequest ''a cat'' exampleImages ''Shape: box'') @ [],
        Some parseFailure)"
proof -
  have a: "analysisTextOf (brokenService (analysisRequest ''a cat'' exampleImages) 0) = ''Shape: box''"
    by (simp add: brokenService_def scriptedService_def analysisRequest_def textResponse_def
        analysisTextOf_def)
  have "cleanAndParseJSON referenceParse brokenSceneText = Inl parseFailure"
    by (rule cleanAndParseJSON_exhausted) (simp_all add: brokenScene_exhausted)
  then show ?thesis
    by (simp add: generateSceneWorkflow_def Let_def parseModelText_def brokenService_model a)
qed

lemma imageService_view:
  assumes "ref = None \<or> ref = Some (''png of Front view'')"
  shows "generateSingleView imageService prompt view ref 3
     = (Inr (''png of '' @ view), [Request (viewRequest prompt view ref)])"
proof -
  from assms have "attemptView imageService (viewRequest prompt view ref) view 0
      = Inr (''png of '' @ view)"
    by (auto simp: attemptView_def imageService_def viewRequest_def truthyString_def
        imageResponse_def imageOf_def)
  then show ?thesis
    unfolding generateSingleView_def by (intro attempts_ok) simp_all
qed

section \<open>The claims\<close>

text \<open>
  C1, as amended. When the stage-2 response text parses (after repair) to an object whose
  \<^verbatim>\<open>shapes\<close> member is present and not \<^verbatim>\<open>null\<close>, so that \<^verbatim>\<open>sceneData.shapes.length\<close> is read
  without an error, and the conversion of that length to a string for the log line does
  not throw, the generator returns normally after exactly eight progress events with the
  stage identifiers 1, 1, 2, 2, 3, 3, 4, 4. The fourth and the sixth event carry the parsed
  scene and the eighth carries a copy of it whose \<^verbatim>\<open>ambientLightIntensity\<close> is 0.7 and whose
  \<^verbatim>\<open>shapes\<close> member is unchanged; the other five events, the first event of stage 3 among
  them, carry no scene. The first log line of the fourth event shows the converted length.
\<close>

theorem workflow_eight_events:
  assumes "ai (modelRequest prompt refs (analysisTextOf (ai (analysisRequest prompt refs) 0))) 0
             = Inr modelResponse"
    and "responseText modelResponse = Some t"
    and "cleanAndParseJSON JSON_parse t = Inr (JObj ms)"
    and "map_of ms ''shapes'' = Some shapes"
    and "getLength (Some shapes) = Inr n"
    and "ToString n = Inr shapeCount"
  shows "snd (generateSceneWorkflow JSON_parse ToString ai prompt refs) = None
     \<and> map stageId (events (fst (generateSceneWorkflow JSON_parse ToString ai prompt refs)))
         = [1, 1, 2, 2, 3, 3, 4, 4]
     \<and> map sceneConfig (events (fst (generateSceneWorkflow JSON_parse ToString ai prompt refs)))
         = [None, None, None, Some (JObj ms), None, Some (JObj ms), None,
            Some (JObj (AList.update ''ambientLightIntensity'' (JNum 0.7) ms))]
     \<and> logs (events (fst (generateSceneWorkflow JSON_parse ToString ai prompt refs)) ! 3)
         = [''Generated '' @ shapeCount @ '' geometric clusters (Simulated High-Poly).'',
            ''Topology Optimization: Voxel Approximation applied.'',
            ''Silhouette matched to reference.'']
     \<and> map_of (AList.update ''ambientLightIntensity'' (JNum 0.7) ms) ''ambientLightIntensity''
         = Some (JNum 0.7)
     \<and> map_of (AList.update ''ambientLightIntensity'' (JNum 0.7) ms) ''shapes'' = Some shapes"
proof -
  from assms(5) have nonnull: "shapes \<noteq> JNull"
    by (auto simp: getLength_def)
  have len: "shapesLength (JObj ms) = Inr n"
    unfolding shapesLength_Inr using assms(4,5) nonnull by blast
  have parsed: "parseModelText JSON_parse (responseText modelResponse) = Inr (JObj ms)"
    by (simp add: parseModelText_def assms(2,3))
  have run: "generateSceneWorkflow JSON_parse ToString ai prompt refs =
     (stage1Events (analysisRequest prompt refs)
        @ stage2Start (modelRequest prompt refs (analysisTextOf (ai (analysisRequest prompt refs) 0)))
        @ laterStages shapeCount (JObj ms), None)"
    using assms(1) parsed len assms(6) by (rule workflow_returns)
  have line: "logs (events (fst (generateSceneWorkflow JSON_parse ToString ai prompt refs)) ! 3)
         = [''Generated '' @ shapeCount @ '' geometric clusters (Simulated High-Poly).'',
            ''Topology Optimization: Voxel Approximation applied.'',
            ''Silhouette matched to reference.'']"
    unfolding run fst_conv events_started by (simp add: laterStages_def)
  have rest: "snd (generateSceneWorkflow JSON_parse ToString ai prompt refs) = None
     \<and> map stageId (events (fst (generateSceneWorkflow JSON_parse ToString ai prompt refs)))
         = [1, 1, 2, 2, 3, 3, 4, 4]
     \<and> map sceneConfig (events (fst (generateSceneWorkflow JSON_parse ToString ai prompt refs)))
         = [None, None, None, Some (JObj ms), None, Some (JObj ms), None,
            Some (JObj (AList.update ''ambientLightIntensity'' (JNum 0.7) ms))]"
    unfolding run by (simp add: brighten_object)
  have kept: "map_of (AList.update ''ambientLightIntensity'' (JNum 0.7) ms) ''ambientLightIntensity''
         = Some (JNum 0.7)
     \<and> map_of (AList.update ''ambientLightIntensity'' (JNum 0.7) ms) ''shapes'' = Some shapes"
    by (simp add: update_conv' assms(4))
  from rest line kept show ?thesis
    by (simp only: simp_thms)
qed

theorem workflow_eight_events_witness:
  "snd (generateSceneWorkflow referenceParse referenceToString exampleService ''a cat'' exampleImages)
     = None
   \<and> map stageId
        (events (fst (generateSceneWorkflow referenceParse referenceToString exampleService ''a cat''
           exampleImages)))
     = [1, 1, 2, 2, 3, 3, 4, 4]
   \<and> map sceneConfig
        (events (fst (generateSceneWorkflow referenceParse referenceToString exampleService ''a cat''
           exampleImages)))
     = [None, None, None, Some (JObj exampleScene), None, Some (JObj exampleScene), None,
        Some (JObj (AList.update ''ambientLightIntensity'' (JNum 0.7) exampleScene))]
   \<and> logs (events (fst (generateSceneWorkflow referenceParse referenceToString exampleService
           ''a cat'' exampleImages)) ! 3)
     = [''Generated 1 geometric clusters (Simulated High-Poly).'',
        ''Topology Optimization: Voxel Approximation applied.'',
        ''Silhouette matched to reference.'']"
proof -
  let ?shapes = "JArr [JObj [(''id'', JStr ''body''), (''type'', JStr ''BOX''),
                     (''position'', JArr [JNum 0, JNum 0.5, JNum 0]),
                     (''rotation'', JArr [JNum 0, JNum 0, JNum 0]),
                     (''scale'', JArr [JNum 1, JNum 1, JNum 1]),
                     (''color'', JStr ''#ff0000'')]]"
  have shapes: "map_of exampleScene ''shapes'' = Some ?shapes"
    by (simp add: exampleScene_def)
  have len: "getLength (Some ?shapes) = Inr (Some (JNum 1))"
    by (simp add: getLength_def)
  have "showNat 1 = ''1''"
    by code_simp
  then have count: "referenceToString (Some (JNum 1)) = Inr ''1''"
    by (simp add: referenceToString_def)
  show ?thesis
    using workflow_eight_events [of exampleService "''a cat''" exampleImages _ exampleSceneText
        referenceParse exampleScene ?shapes "Some (JNum 1)" referenceToString "''1''",
        OF exampleService_model _ exampleScene_parsed shapes len count]
    by simp
qed

text \<open>
  C1 as stated fails in three ways. The text \<open>exampleSceneText\<close> is well-formed JSON of a
  scene, and the first event of stage 3 carries no scene. Parsable JSON need not be a
  scene: the text \<^verbatim>\<open>{}\<close> parses, and the generator throws a TypeError after three
  events, at \<^verbatim>\<open>sceneData.shapes.length\<close>; the text \<open>unprintableSceneText\<close> parses, the
  length is read, and the generator throws a TypeError after three events when the
  template literal converts the length to a string. A scene whose ambient light intensity
  is already 0.7 comes out of stage 4 as it went in.
\<close>

theorem workflow_eight_events_counterexample:
  "cleanAndParseJSON referenceParse exampleSceneText = Inr (JObj exampleScene)
   \<and> stageId (events (fst (generateSceneWorkflow referenceParse referenceToString exampleService
          ''a cat'' exampleImages)) ! 4) = 3
   \<and> sceneConfig (events (fst (generateSceneWorkflow referenceParse referenceToString exampleService
          ''a cat'' exampleImages)) ! 4) = None
   \<and> cleanAndParseJSON referenceParse ''{}'' = Inr (JObj [])
   \<and> length (events (fst (generateSceneWorkflow referenceParse referenceToString emptyObjectService
          ''a cat'' exampleImages))) = 3
   \<and> snd (generateSceneWorkflow referenceParse referenceToString emptyObjectService
          ''a cat'' exampleImages)
       = Some (TypeError ''Cannot read properties of undefined (reading 'length')'')
   \<and> cleanAndParseJSON referenceParse unprintableSceneText
       = Inr (JObj [(''shapes'', JObj [(''length'', JObj [(''toString'', JNum 1)])])])
   \<and> length (events (fst (generateSceneWorkflow referenceParse referenceToString unprintableService
          ''a cat'' exampleImages))) = 3
   \<and> snd (generateSceneWorkflow referenceParse referenceToString unprintableService
          ''a cat'' exampleImages)
       = Some (TypeError ''Cannot convert object to primitive value'')
   \<and> map sceneConfig (events (fst (generateSceneWorkflow referenceParse referenceToString
          brightService ''a cat'' exampleImages))) ! 7
       = map sceneConfig (events (fst (generateSceneWorkflow referenceParse referenceToString
          brightService ''a cat'' exampleImages))) ! 3"
proof -
  have e: "generateSceneWorkflow referenceParse referenceToString emptyObjectService ''a cat''
             exampleImages
      = (stage1Events (analysisRequest ''a cat'' exampleImages)
          @ stage2Start (modelRequest ''a cat'' exampleImages ''Shape: box''),
         Some (TypeError ''Cannot read properties of undefined (reading 'length')''))"
    by (simp add: generateSceneWorkflow_def emptyObjectService_def scriptedService_def
        textResponse_def analysisRequest_def modelRequest_def analysisTextOf_def
        parseModelText_def emptyObject_parsed shapesLength_def getShapes_def getLength_def)
  have u: "generateSceneWorkflow referenceParse referenceToString unprintableService ''a cat''
             exampleImages
      = (stage1Events (analysisRequest ''a cat'' exampleImages)
          @ stage2Start (modelRequest ''a cat'' exampleImages ''Shape: box''),
         Some (TypeError ''Cannot convert object to primitive value''))"
    by (simp add: generateSceneWorkflow_def unprintableService_def scriptedService_def
        textResponse_def analysisRequest_def modelRequest_def analysisTextOf_def
        parseModelText_def unprintable_parsed shapesLength_def getShapes_def getLength_def
        referenceToString_def)
  have b: "map sceneConfig (events (fst (generateSceneWorkflow referenceParse referenceToString
          brightService ''a cat'' exampleImages)))
       = [None, None, None,
          Some (JObj [(''backgroundColor'', JStr ''#000000''), (''ambientLightIntensity'', JNum 0.7),
                (''shapes'', JArr [])]), None,
          Some (JObj [(''backgroundColor'', JStr ''#000000''), (''ambientLightIntensity'', JNum 0.7),
                (''shapes'', JArr [])]), None,
          Some (JObj [(''backgroundColor'', JStr ''#000000''), (''ambientLightIntensity'', JNum 0.7),
                (''shapes'', JArr [])])]"
    by (simp add: generateSceneWorkflow_def brightService_def scriptedService_def
        textResponse_def analysisRequest_def modelRequest_def analysisTextOf_def
        parseModelText_def brightScene_parsed shapesLength_def getShapes_def getLength_def
        brighten_object referenceToString_def)
  show ?thesis
    unfolding exampleRun e u b
    by (simp add: exampleScene_parsed emptyObject_parsed unprintable_parsed laterStages_def
        stage1Events_def stage2Start_def)
qed

text \<open>
  C2. When the stage-2 response text exhausts the repair ladder (the direct parse, the
  parse of the repaired text and the parse of the truncated and closed text all fail, or
  there is no closing brace to truncate at), the generator throws the parse failure, no
  event of stage 2 carries a scene, and the structured-generation request is issued once:
  the requests of the whole run are the analysis request and that one.
\<close>

theorem unparsable_scene_fails:
  assumes "ai (modelRequest prompt refs (analysisTextOf (ai (analysisRequest prompt refs) 0))) 0
             = Inr modelResponse"
    and "responseText modelResponse = Some t"
    and "JSON_parse (cleanMarkdown t) = None"
    and "JSON_parse (syntaxRepairs (cleanMarkdown t)) = None"
    and "\<forall>closedText. truncationRepair (syntaxRepairs (cleanMarkdown t)) = Some closedText
           \<longrightarrow> JSON_parse closedText = None"
  shows "snd (generateSceneWorkflow JSON_parse ToString ai prompt refs) = Some parseFailure
     \<and> (\<forall>e \<in> set (events (fst (generateSceneWorkflow JSON_parse ToString ai prompt refs))).
           stageId e = 2 \<longrightarrow> sceneConfig e = None)
     \<and> requests (fst (generateSceneWorkflow JSON_parse ToString ai prompt refs))
         = [analysisRequest prompt refs,
            modelRequest prompt refs (analysisTextOf (ai (analysisRequest prompt refs) 0))]
     \<and> length (filter (\<lambda>r. config r \<noteq> None)
           (requests (fst (generateSceneWorkflow JSON_parse ToString ai prompt refs)))) = 1"
proof -
  have "cleanAndParseJSON JSON_parse t = Inl parseFailure"
    using assms(3-5) by (rule cleanAndParseJSON_exhausted)
  then have run: "generateSceneWorkflow JSON_parse ToString ai prompt refs =
     (stage1Events (analysisRequest prompt refs)
        @ stage2Start (modelRequest prompt refs (analysisTextOf (ai (analysisRequest prompt refs) 0)))
        @ [], Some parseFailure)"
    using assms(1,2) by (simp add: generateSceneWorkflow_def Let_def parseModelText_def)
  have "config (analysisRequest prompt refs) = None"
    and "config (modelRequest prompt refs (analysisTextOf (ai (analysisRequest prompt refs) 0))) \<noteq> None"
    by (simp_all add: analysisRequest_def modelRequest_def)
  then show ?thesis
    unfolding run fst_conv snd_conv events_started requests_started by simp
qed

theorem unparsable_scene_fails_witness:
  "truncationRepair (syntaxRepairs (cleanMarkdown brokenSceneText)) = Some ''{\"shapes\": [ }]''
   \<and> snd (generateSceneWorkflow referenceParse referenceToString brokenService ''a cat'' exampleImages)
       = Some parseFailure
   \<and> map sceneConfig (events (fst (generateSceneWorkflow referenceParse referenceToString
         brokenService ''a cat'' exampleImages))) = [None, None, None]
   \<and> requests (fst (generateSceneWorkflow referenceParse referenceToString brokenService ''a cat''
         exampleImages))
       = [analysisRequest ''a cat'' exampleImages, modelRequest ''a cat'' exampleImages ''Shape: box'']"
proof -
  have a: "analysisTextOf (brokenService (analysisRequest ''a cat'' exampleImages) 0) = ''Shape: box''"
    by (simp add: brokenService_def scriptedService_def analysisRequest_def textResponse_def
        analysisTextOf_def)
  have 3: "\<forall>closedText. truncationRepair (syntaxRepairs (cleanMarkdown brokenSceneText))
      = Some closedText \<longrightarrow> referenceParse closedText = None"
    by (simp add: brokenScene_exhausted)
  have evs: "map sceneConfig (events (fst (generateSceneWorkflow referenceParse referenceToString
         brokenService ''a cat'' exampleImages))) = [None, None, None]"
    unfolding brokenRun fst_conv events_started by simp
  show ?thesis
    using unparsable_scene_fails [of brokenService "''a cat''" exampleImages _ brokenSceneText
        referenceParse referenceToString,
        OF brokenService_model _ brokenScene_exhausted(1) brokenScene_exhausted(2) 3]
    by (simp add: brokenScene_exhausted a evs)
qed

text \<open>
  C3. When every attempt of a view generation fails, \<open>generateSingleView\<close> (with the
  default of 3 retries) issues its request exactly three times, waits 1000 ms after the
  first failure and 2000 ms after the second, waits nothing after the third, and throws
  an error whose message names the view and ends with the message of the last failure.
\<close>

theorem generateSingleView_exhausted:
  assumes "attemptView ai (viewRequest prompt view referenceImage) view 0 = Inl e1"
    and "attemptView ai (viewRequest prompt view referenceImage) view 1 = Inl e2"
    and "attemptView ai (viewRequest prompt view referenceImage) view 2 = Inl e3"
  shows "generateSingleView ai prompt view referenceImage 3 =
      (Inl (Error (''Failed to generate '' @ view @ '' after 3 attempts. Last error: '' @ message e3)),
       [Request (viewRequest prompt view referenceImage), Delay 1000,
        Request (viewRequest prompt view referenceImage), Delay 2000,
        Request (viewRequest prompt view referenceImage)])"
proof -
  let ?r = "viewRequest prompt view referenceImage"
  let ?x = "Inl (exhausted view 3 (Some e3)) :: js_error + string"
  have 4: "attempts ai ?r view 3 4 (Some e3) = (?x, [])"
    by (rule attempts_past) simp
  have 3: "attempts ai ?r view 3 3 (Some e2) = (?x, Request ?r # [] @ [])"
    by (rule attempts_fail [OF _ _ assms(3) _ 4]) simp_all
  have 2: "attempts ai ?r view 3 2 (Some e1) = (?x, Request ?r # [Delay 2000] @ (Request ?r # [] @ []))"
    by (rule attempts_fail [OF _ _ assms(2) _ 3]) simp_all
  have 1: "attempts ai ?r view 3 1 None
      = (?x, Request ?r # [Delay 1000] @ (Request ?r # [Delay 2000] @ (Request ?r # [] @ [])))"
    by (rule attempts_fail [OF _ _ assms(1) _ 2]) simp_all
  show ?thesis
    unfolding generateSingleView_def 1 by (simp add: exhausted_def showNat_3)
qed

theorem generateSingleView_exhausted_witness:
  "generateSingleView silentService ''a cat'' ''Front view'' None 3 =
     (Inl (Error (''Failed to generate Front view after 3 attempts. Last error: ''
                  @ ''Model returned no image data for Front view'')),
      [Request (viewRequest ''a cat'' ''Front view'' None), Delay 1000,
       Request (viewRequest ''a cat'' ''Front view'' None), Delay 2000,
       Request (viewRequest ''a cat'' ''Front view'' None)])"
proof -
  have fails: "attemptView silentService (viewRequest ''a cat'' ''Front view'' None) ''Front view'' k
      = Inl (Error ''Model returned no image data for Front view'')" for k
    by (simp add: attemptView_def silentService_def imageOf_def)
  show ?thesis
    using generateSingleView_exhausted [OF fails fails fails] by simp
qed

text \<open>
  C4. When the direct parse and the parse of the repaired text both fail, the ladder cuts
  the repaired text after its last closing brace (nothing after the cut is a closing
  brace), appends one \<^verbatim>\<open>]\<close> for every opening bracket of the prefix that has no closing
  bracket and then one \<^verbatim>\<open>}\<close> for every opening brace that has no closing brace, and
  returns what the result parses to; a repaired text without a closing brace is given up.
  On the text \<^verbatim>\<open>{"shapes":[{"id":"x"}\<close> it returns the object that
  \<^verbatim>\<open>{"shapes":[{"id":"x"}]}\<close> parses to.
\<close>

theorem truncation_repair:
  assumes "JSON_parse (cleanMarkdown text) = None"
    and "JSON_parse (syntaxRepairs (cleanMarkdown text)) = None"
  shows "(if CHR ''}'' \<in> set (syntaxRepairs (cleanMarkdown text))
          then \<exists>truncated rest.
                  syntaxRepairs (cleanMarkdown text) = truncated @ rest
                \<and> truncated \<noteq> [] \<and> last truncated = CHR ''}'' \<and> CHR ''}'' \<notin> set rest
                \<and> cleanAndParseJSON JSON_parse text =
                    (case JSON_parse
                            (truncated
                             @ replicate
                                 (count_list truncated CHR ''['' - count_list truncated CHR '']'')
                                 CHR '']''
                             @ replicate
                                 (count_list truncated CHR ''{'' - count_list truncated CHR ''}'')
                                 CHR ''}'') of
                       Some v \<Rightarrow> Inr v
                     | None \<Rightarrow> Inl parseFailure)
          else cleanAndParseJSON JSON_parse text = Inl parseFailure)
     \<and> cleanAndParseJSON referenceParse ''{\"shapes\":[{\"id\":\"x\"}''
         = Inr (JObj [(''shapes'', JArr [JObj [(''id'', JStr ''x'')]])])
     \<and> referenceParse ''{\"shapes\":[{\"id\":\"x\"}]}''
         = Some (JObj [(''shapes'', JArr [JObj [(''id'', JStr ''x'')]])])"
proof -
  let ?r = "syntaxRepairs (cleanMarkdown text)"
  let ?t = "rev (dropWhile (\<lambda>x. x \<noteq> CHR ''}'') (rev ?r))"
  let ?rest = "rev (takeWhile (\<lambda>x. x \<noteq> CHR ''}'') (rev ?r))"
  have general: "\<exists>truncated rest.
            ?r = truncated @ rest
          \<and> truncated \<noteq> [] \<and> last truncated = CHR ''}'' \<and> CHR ''}'' \<notin> set rest
          \<and> cleanAndParseJSON JSON_parse text =
              (case JSON_parse
                      (truncated
                       @ replicate (count_list truncated CHR ''['' - count_list truncated CHR '']'')
                           CHR '']''
                       @ replicate (count_list truncated CHR ''{'' - count_list truncated CHR ''}'')
                           CHR ''}'') of
                 Some v \<Rightarrow> Inr v
               | None \<Rightarrow> Inl parseFailure)"
    if found: "CHR ''}'' \<in> set ?r"
  proof -
    have "cleanAndParseJSON JSON_parse text =
        (case JSON_parse (?t @ closingSuffix ?t) of Some v \<Rightarrow> Inr v | None \<Rightarrow> Inl parseFailure)"
      by (simp add: cleanAndParseJSON_def Let_def assms truncationRepair_found [OF found])
    then have "?r = ?t @ ?rest \<and> ?t \<noteq> [] \<and> last ?t = CHR ''}'' \<and> CHR ''}'' \<notin> set ?rest
        \<and> cleanAndParseJSON JSON_parse text =
                (case JSON_parse
                        (?t
                         @ replicate (count_list ?t CHR ''['' - count_list ?t CHR '']'') CHR '']''
                         @ replicate (count_list ?t CHR ''{'' - count_list ?t CHR ''}'') CHR ''}'') of
                   Some v \<Rightarrow> Inr v
                 | None \<Rightarrow> Inl parseFailure)"
      using split_at_last [OF found] by (simp only: closingSuffix_counts) simp
    then show ?thesis
      by (intro exI)
  qed
  have missing: "cleanAndParseJSON JSON_parse text = Inl parseFailure"
    if "CHR ''}'' \<notin> set ?r"
    using that
    by (simp add: cleanAndParseJSON_def Let_def assms truncationRepair_def lastIndexOf_missing)
  have 1: "cleanAndParseJSON referenceParse ''{\"shapes\":[{\"id\":\"x\"}''
         = Inr (JObj [(''shapes'', JArr [JObj [(''id'', JStr ''x'')]])])"
    by code_simp
  have 2: "referenceParse ''{\"shapes\":[{\"id\":\"x\"}]}''
         = Some (JObj [(''shapes'', JArr [JObj [(''id'', JStr ''x'')]])])"
    by code_simp
  have "if CHR ''}'' \<in> set ?r
          then \<exists>truncated rest.
                  ?r = truncated @ rest
                \<and> truncated \<noteq> [] \<and> last truncated = CHR ''}'' \<and> CHR ''}'' \<notin> set rest
                \<and> cleanAndParseJSON JSON_parse text =
                    (case JSON_parse
                            (truncated
                             @ replicate
                                 (count_list truncated CHR ''['' - count_list truncated CHR '']'')
                                 CHR '']''
                             @ replicate
                                 (count_list truncated CHR ''{'' - count_list truncated CHR ''}'')
                                 CHR ''}'') of
                       Some v \<Rightarrow> Inr v
                     | None \<Rightarrow> Inl parseFailure)
          else cleanAndParseJSON JSON_parse text = Inl parseFailure"
  proof (cases "CHR ''}'' \<in> set ?r")
    case True
    from general [OF True] True show ?thesis
      by (simp only: if_True)
  next
    case False
    from missing [OF False] False show ?thesis
      by (simp only: if_False)
  qed
  then show ?thesis
    using 1 2 by (intro conjI)
qed

theorem truncation_repair_witness:
  "referenceParse (cleanMarkdown ''{\"shapes\":[{\"id\":\"x\"}'') = None
   \<and> referenceParse (syntaxRepairs (cleanMarkdown ''{\"shapes\":[{\"id\":\"x\"}'')) = None
   \<and> truncationRepair (syntaxRepairs (cleanMarkdown ''{\"shapes\":[{\"id\":\"x\"}''))
       = Some ''{\"shapes\":[{\"id\":\"x\"}]}''
   \<and> cleanAndParseJSON referenceParse ''{\"shapes\":[{\"id\":\"x\"}''
       = Inr (JObj [(''shapes'', JArr [JObj [(''id'', JStr ''x'')]])])"
proof -
  have 1: "referenceParse (cleanMarkdown ''{\"shapes\":[{\"id\":\"x\"}'') = None"
    by code_simp
  have 2: "referenceParse (syntaxRepairs (cleanMarkdown ''{\"shapes\":[{\"id\":\"x\"}'')) = None"
    by code_simp
  have 3: "truncationRepair (syntaxRepairs (cleanMarkdown ''{\"shapes\":[{\"id\":\"x\"}''))
       = Some ''{\"shapes\":[{\"id\":\"x\"}]}''"
    by code_simp
  from truncation_repair [of referenceParse, OF 1 2]
  have "cleanAndParseJSON referenceParse ''{\"shapes\":[{\"id\":\"x\"}''
       = Inr (JObj [(''shapes'', JArr [JObj [(''id'', JStr ''x'')]])])"
    by (rule conjunct2 [THEN conjunct1])
  with 1 2 3 show ?thesis
    by (intro conjI)
qed

text \<open>
  C5, as amended. For a text that parses, that contains no run of three backticks, and
  whose first opening brace, if it has one, is its first character after trimming (for a
  well-formed text: an object, or a value without a brace), the ladder returns what the
  direct parse returns. \<^verbatim>\<open>JSON.parse\<close> skips the white space around a value, which is
  the hypothesis that parsing the trimmed text gives the same result; the reference
  parser has this property (\<open>referenceParse_trim\<close>).
\<close>

theorem repair_identity:
  assumes "JSON_parse text = Some v"
    and "\<not> sublist ''```'' text"
    and "CHR ''{'' \<notin> set text \<or> prefix ''{'' (trim text)"
    and "JSON_parse (trim text) = JSON_parse text"
  shows "cleanAndParseJSON JSON_parse text = Inr v"
  by (simp add: cleanAndParseJSON_def cleanMarkdown_plain [OF assms(2,3)] assms(1,4))

theorem repair_identity_witness:
  "referenceParse ''  {\"a\": [1, {\"b\": null}]} '' = Some (JObj [(''a'', JArr [JNum 1, JObj [(''b'', JNull)]])])
   \<and> trim ''  {\"a\": [1, {\"b\": null}]} '' = ''{\"a\": [1, {\"b\": null}]}''
   \<and> cleanAndParseJSON referenceParse ''  {\"a\": [1, {\"b\": null}]} ''
       = Inr (JObj [(''a'', JArr [JNum 1, JObj [(''b'', JNull)]])])"
proof -
  have 1: "referenceParse ''  {\"a\": [1, {\"b\": null}]} ''
      = Some (JObj [(''a'', JArr [JNum 1, JObj [(''b'', JNull)]])])"
    by code_simp
  have 2: "\<not> sublist ''```'' ''  {\"a\": [1, {\"b\": null}]} ''"
    by code_simp
  have t: "trim ''  {\"a\": [1, {\"b\": null}]} '' = ''{\"a\": [1, {\"b\": null}]}''"
    by code_simp
  have 3: "CHR ''{'' \<notin> set ''  {\"a\": [1, {\"b\": null}]} ''
      \<or> prefix ''{'' (trim ''  {\"a\": [1, {\"b\": null}]} '')"
    unfolding t by simp
  have 4: "referenceParse (trim ''  {\"a\": [1, {\"b\": null}]} '')
      = referenceParse ''  {\"a\": [1, {\"b\": null}]} ''"
    using 1 by (rule referenceParse_trim)
  from repair_identity [OF 1 2 3 4] 1 t show ?thesis
    by (intro conjI)
qed

text \<open>
  C5 as stated fails on well-formed texts: an array of objects loses its brackets (the
  ladder discards what precedes the first brace), three backticks inside a string are
  deleted with the fences, and a string that contains a brace does not parse at all after
  the cut.
\<close>

theorem repair_identity_counterexample:
  "referenceParse ''[{\"a\":1}]'' = Some (JArr [JObj [(''a'', JNum 1)]])
   \<and> cleanAndParseJSON referenceParse ''[{\"a\":1}]'' = Inr (JObj [(''a'', JNum 1)])
   \<and> referenceParse ''{\"a\":\"```\"}'' = Some (JObj [(''a'', JStr ''```'')])
   \<and> cleanAndParseJSON referenceParse ''{\"a\":\"```\"}'' = Inr (JObj [(''a'', JStr [])])
   \<and> referenceParse ''\"{\"'' = Some (JStr ''{'')
   \<and> cleanAndParseJSON referenceParse ''\"{\"'' = Inl parseFailure"
  by (intro conjI; code_simp)

text \<open>
  C6. Every run of \<open>generateReferenceImages\<close> starts with the whole generation of the
  front view: its first action is the front-view request, which has no image part, and
  every request of that generation is this one. If the front view fails, nothing else is
  requested and its error is the builder's. Otherwise the 200 ms delay follows, and every
  later request is the back, left or right view request carrying the front image (which
  is not empty) as its inline image and the prompt of the conditioned mode. The builder
  returns an image set only when each of the three conditioned generations returned its
  image, and the run then contains the complete actions of all three, interleaved.
\<close>

theorem conditioned_after_front:
  assumes "(res, t) \<in> generateReferenceImages ai prompt"
  shows "\<exists>r0 t0 rest.
      generateSingleView ai prompt ''Front view'' None 3 = (r0, t0)
    \<and> t = t0 @ rest
    \<and> (\<exists>more. t0 = Request (viewRequest prompt ''Front view'' None) # more)
    \<and> contents (viewRequest prompt ''Front view'' None)
        = [TextPart (SingleView ''Front view'' prompt)]
    \<and> set (requests t0) = {viewRequest prompt ''Front view'' None}
    \<and> (case r0 of
         Inl e \<Rightarrow> rest = [] \<and> res = Inl e
       | Inr f \<Rightarrow>
          (\<exists>later. rest = Delay 200 # later
            \<and> set (requests later)
                \<subseteq> {viewRequest prompt ''Back view'' (Some f),
                    viewRequest prompt ''Left side profile view'' (Some f),
                    viewRequest prompt ''Right side profile view'' (Some f)}
            \<and> contents (viewRequest prompt ''Back view'' (Some f))
                = [InlineData ''image/png'' f, TextPart (ViewOfReference ''Back view'')]
            \<and> contents (viewRequest prompt ''Left side profile view'' (Some f))
                = [InlineData ''image/png'' f, TextPart (ViewOfReference ''Left side profile view'')]
            \<and> contents (viewRequest prompt ''Right side profile view'' (Some f))
                = [InlineData ''image/png'' f, TextPart (ViewOfReference ''Right side profile view'')]
            \<and> (case res of
                 Inl e \<Rightarrow> True
               | Inr imgs \<Rightarrow>
                  front imgs = f
                  \<and> (\<exists>tb tl tr.
                        generateSingleView ai prompt ''Back view'' (Some f) 3
                          = (Inr (back' imgs), tb)
                      \<and> generateSingleView ai prompt ''Left side profile view'' (Some f) 3
                          = (Inr (left imgs), tl)
                      \<and> generateSingleView ai prompt ''Right side profile view'' (Some f) 3
                          = (Inr (right imgs), tr)
                      \<and> later \<in> interleavings tb tl tr))))"
proof -
  obtain r0 t0 where front: "generateSingleView ai prompt ''Front view'' None 3 = (r0, t0)"
    by (cases "generateSingleView ai prompt ''Front view'' None 3")
  note f = generateSingleView_requests [OF front]
  from f(2) obtain more where more: "t0 = Request (viewRequest prompt ''Front view'' None) # more"
    ..
  with f(1) have reqs: "set (requests t0) = {viewRequest prompt ''Front view'' None}"
    by auto
  have tail: "\<exists>rest. t = t0 @ rest \<and>
      (case r0 of
         Inl e \<Rightarrow> rest = [] \<and> res = Inl e
       | Inr f \<Rightarrow>
          (\<exists>later. rest = Delay 200 # later
            \<and> set (requests later)
                \<subseteq> {viewRequest prompt ''Back view'' (Some f),
                    viewRequest prompt ''Left side profile view'' (Some f),
                    viewRequest prompt ''Right side profile view'' (Some f)}
            \<and> contents (viewRequest prompt ''Back view'' (Some f))
                = [InlineData ''image/png'' f, TextPart (ViewOfReference ''Back view'')]
            \<and> contents (viewRequest prompt ''Left side profile view'' (Some f))
                = [InlineData ''image/png'' f, TextPart (ViewOfReference ''Left side profile view'')]
            \<and> contents (viewRequest prompt ''Right side profile view'' (Some f))
                = [InlineData ''image/png'' f, TextPart (ViewOfReference ''Right side profile view'')]
            \<and> (case res of
                 Inl e \<Rightarrow> True
               | Inr imgs \<Rightarrow>
                  front imgs = f
                  \<and> (\<exists>tb tl tr.
                        generateSingleView ai prompt ''Back view'' (Some f) 3
                          = (Inr (back' imgs), tb)
                      \<and> generateSingleView ai prompt ''Left side profile view'' (Some f) 3
                          = (Inr (left imgs), tl)
                      \<and> generateSingleView ai prompt ''Right side profile view'' (Some f) 3
                          = (Inr (right imgs), tr)
                      \<and> later \<in> interleavings tb tl tr))))"
  proof (cases r0)
    case (Inl e)
    with assms front have "t = t0 @ [] \<and> res = Inl e"
      by (simp add: generateReferenceImages_def)
    with Inl show ?thesis
      by auto
  next
    case (Inr fr)
    obtain b tb where viewB: "generateSingleView ai prompt ''Back view'' (Some fr) 3 = (b, tb)"
      by (cases "generateSingleView ai prompt ''Back view'' (Some fr) 3")
    obtain l tl where viewL: "generateSingleView ai prompt ''Left side profile view'' (Some fr) 3
        = (l, tl)"
      by (cases "generateSingleView ai prompt ''Left side profile view'' (Some fr) 3")
    obtain r tr where viewR: "generateSingleView ai prompt ''Right side profile view'' (Some fr) 3
        = (r, tr)"
      by (cases "generateSingleView ai prompt ''Right side profile view'' (Some fr) 3")
    from assms front Inr viewB viewL viewR obtain later where
      res: "res \<in> promiseAll fr b l r" and later: "later \<in> interleavings tb tl tr"
      and t: "t = t0 @ Delay 200 # later"
      by (auto simp: generateReferenceImages_def)
    from f(3) Inr have nonempty: "fr \<noteq> []"
      by simp
    have "set (requests later) = set (requests tb) \<union> set (requests tl) \<union> set (requests tr)"
      using later by (rule interleavings_requests)
    with generateSingleView_requests(1) [OF viewB] generateSingleView_requests(1) [OF viewL]
      generateSingleView_requests(1) [OF viewR]
    have sub: "set (requests later)
                \<subseteq> {viewRequest prompt ''Back view'' (Some fr),
                    viewRequest prompt ''Left side profile view'' (Some fr),
                    viewRequest prompt ''Right side profile view'' (Some fr)}"
      by auto
    have finished: "case res of
                 Inl e \<Rightarrow> True
               | Inr imgs \<Rightarrow>
                  front imgs = fr
                  \<and> (\<exists>tb tl tr.
                        generateSingleView ai prompt ''Back view'' (Some fr) 3
                          = (Inr (back' imgs), tb)
                      \<and> generateSingleView ai prompt ''Left side profile view'' (Some fr) 3
                          = (Inr (left imgs), tl)
                      \<and> generateSingleView ai prompt ''Right side profile view'' (Some fr) 3
                          = (Inr (right imgs), tr)
                      \<and> later \<in> interleavings tb tl tr)"
    proof (cases res)
      case (Inl e)
      then show ?thesis by simp
    next
      case (Inr imgs)
      with res have "front imgs = fr \<and> b = Inr (back' imgs) \<and> l = Inr (left imgs)
          \<and> r = Inr (right imgs)"
        by (simp add: promiseAll_Inr)
      with viewB viewL viewR later Inr show ?thesis
        by auto
    qed
    from t sub finished viewRequest_contents(2) [OF nonempty] Inr show ?thesis
      by simp
  qed
  then obtain rest where "t = t0 @ rest" and "case r0 of
         Inl e \<Rightarrow> rest = [] \<and> res = Inl e
       | Inr f \<Rightarrow>
          (\<exists>later. rest = Delay 200 # later
            \<and> set (requests later)
                \<subseteq> {viewRequest prompt ''Back view'' (Some f),
                    viewRequest prompt ''Left side profile view'' (Some f),
                    viewRequest prompt ''Right side profile view'' (Some f)}
            \<and> contents (viewRequest prompt ''Back view'' (Some f))
                = [InlineData ''image/png'' f, TextPart (ViewOfReference ''Back view'')]
            \<and> contents (viewRequest prompt ''Left side profile view'' (Some f))
                = [InlineData ''image/png'' f, TextPart (ViewOfReference ''Left side profile view'')]
            \<and> contents (viewRequest prompt ''Right side profile view'' (Some f))
                = [InlineData ''image/png'' f, TextPart (ViewOfReference ''Right side profile view'')]
            \<and> (case res of
                 Inl e \<Rightarrow> True
               | Inr imgs \<Rightarrow>
                  front imgs = f
                  \<and> (\<exists>tb tl tr.
                        generateSingleView ai prompt ''Back view'' (Some f) 3
                          = (Inr (back' imgs), tb)
                      \<and> generateSingleView ai prompt ''Left side profile view'' (Some f) 3
                          = (Inr (left imgs), tl)
                      \<and> generateSingleView ai prompt ''Right side profile view'' (Some f) 3
                          = (Inr (right imgs), tr)
                      \<and> later \<in> interleavings tb tl tr)))"
    by blast
  with front more reqs viewRequest_contents(1) [of prompt "''Front view''"] show ?thesis
    by (intro exI [of _ r0] exI [of _ t0] exI [of _ rest]) simp
qed

theorem conditioned_after_front_witness:
  "(Inr \<lparr>front = ''png of Front view'', back' = ''png of Back view'',
         left = ''png of Left side profile view'', right = ''png of Right side profile view''\<rparr>,
    [Request (viewRequest ''a cat'' ''Front view'' None),
     Delay 200,
     Request (viewRequest ''a cat'' ''Left side profile view'' (Some ''png of Front view'')),
     Request (viewRequest ''a cat'' ''Back view'' (Some ''png of Front view'')),
     Request (viewRequest ''a cat'' ''Right side profile view'' (Some ''png of Front view''))])
     \<in> generateReferenceImages imageService ''a cat''
   \<and> contents (viewRequest ''a cat'' ''Front view'' None)
       = [TextPart (SingleView ''Front view'' ''a cat'')]
   \<and> contents (viewRequest ''a cat'' ''Back view'' (Some ''png of Front view''))
       = [InlineData ''image/png'' ''png of Front view'', TextPart (ViewOfReference ''Back view'')]"
proof -
  let ?B = "Request (viewRequest ''a cat'' ''Back view'' (Some ''png of Front view''))"
  let ?L = "Request (viewRequest ''a cat'' ''Left side profile view'' (Some ''png of Front view''))"
  let ?R = "Request (viewRequest ''a cat'' ''Right side profile view'' (Some ''png of Front view''))"
  let ?imgs = "\<lparr>front = ''png of Front view'', back' = ''png of Back view'',
         left = ''png of Left side profile view'', right = ''png of Right side profile view''\<rparr>"
  have "[?L, ?B] \<in> shuffles [?B] [?L]"
    by (simp add: Cons_in_shuffles_iff)
  moreover have "[?L, ?B, ?R] \<in> shuffles [?L, ?B] [?R]"
    by (simp add: Cons_in_shuffles_iff)
  ultimately have order: "[?L, ?B, ?R] \<in> interleavings [?B] [?L] [?R]"
    unfolding interleavings_def
    by (rule UN_I [of "[?L, ?B]" "shuffles [?B] [?L]" "[?L, ?B, ?R]" "\<lambda>u. shuffles u [?R]"])
  have all: "Inr ?imgs \<in> promiseAll ''png of Front view'' (Inr ''png of Back view'')
      (Inr ''png of Left side profile view'') (Inr ''png of Right side profile view'')"
    by (simp add: promiseAll_def)
  have views:
    "generateSingleView imageService ''a cat'' ''Front view'' None 3
       = (Inr ''png of Front view'', [Request (viewRequest ''a cat'' ''Front view'' None)])"
    "generateSingleView imageService ''a cat'' ''Back view'' (Some ''png of Front view'') 3
       = (Inr ''png of Back view'', [?B])"
    "generateSingleView imageService ''a cat'' ''Left side profile view'' (Some ''png of Front view'') 3
       = (Inr ''png of Left side profile view'', [?L])"
    "generateSingleView imageService ''a cat'' ''Right side profile view'' (Some ''png of Front view'') 3
       = (Inr ''png of Right side profile view'', [?R])"
    by (simp_all add: imageService_view)
  have "(Inr ?imgs, [Request (viewRequest ''a cat'' ''Front view'' None), Delay 200, ?L, ?B, ?R])
      \<in> (\<lambda>(res, t). (res, [Request (viewRequest ''a cat'' ''Front view'' None)] @ Delay 200 # t))
          ` (promiseAll ''png of Front view'' (Inr ''png of Back view'')
               (Inr ''png of Left side profile view'') (Inr ''png of Right side profile view'')
             \<times> interleavings [?B] [?L] [?R])"
  proof (rule image_eqI [where x = "(Inr ?imgs, [?L, ?B, ?R])"])
    show "(Inr ?imgs, [Request (viewRequest ''a cat'' ''Front view'' None), Delay 200, ?L, ?B, ?R])
        = (case (Inr ?imgs, [?L, ?B, ?R]) of
             (res, t) \<Rightarrow> (res, [Request (viewRequest ''a cat'' ''Front view'' None)] @ Delay 200 # t))"
      by (simp only: prod.case append.simps)
    show "(Inr ?imgs, [?L, ?B, ?R])
        \<in> promiseAll ''png of Front view'' (Inr ''png of Back view'')
               (Inr ''png of Left side profile view'') (Inr ''png of Right side profile view'')
             \<times> interleavings [?B] [?L] [?R]"
      using all order
      by (rule SigmaI [of "Inr ?imgs" _ "[?L, ?B, ?R]" "\<lambda>x. interleavings [?B] [?L] [?R]"])
  qed
  then have mem: "(Inr ?imgs, [Request (viewRequest ''a cat'' ''Front view'' None), Delay 200, ?L, ?B, ?R])
      \<in> generateReferenceImages imageService ''a cat''"
    unfolding generateReferenceImages_def views Let_def prod.case sum.case .
  from conditioned_after_front [OF mem]
  have "contents (viewRequest ''a cat'' ''Front view'' None)
       = [TextPart (SingleView ''Front view'' ''a cat'')]"
    by (elim exE conjE)
  moreover have "contents (viewRequest ''a cat'' ''Back view'' (Some ''png of Front view''))
       = [InlineData ''image/png'' ''png of Front view'', TextPart (ViewOfReference ''Back view'')]"
    by (rule viewRequest_contents(2)) simp
  ultimately show ?thesis
    using mem by (intro conjI)
qed

text \<open>
  C7. In a run that returns normally, the last event (the second of stage 4) carries the
  object that the second event of stage 2 carried, with \<^verbatim>\<open>ambientLightIntensity\<close> set to
  0.7: read as a map from member names to values, it is the stage-2 object updated at that
  one name, so \<^verbatim>\<open>backgroundColor\<close>, \<^verbatim>\<open>ambientLightColor\<close> and \<^verbatim>\<open>shapes\<close> are as they were.
\<close>

theorem final_scene_frame:
  assumes "generateSceneWorkflow JSON_parse ToString ai prompt refs = (trace, None)"
  shows "\<exists>ms. length (events trace) = 8
     \<and> stageId (events trace ! 3) = 2
     \<and> sceneConfig (events trace ! 3) = Some (JObj ms)
     \<and> stageId (events trace ! 7) = 4
     \<and> sceneConfig (events trace ! 7)
          = Some (JObj (AList.update ''ambientLightIntensity'' (JNum 0.7) ms))
     \<and> map_of (AList.update ''ambientLightIntensity'' (JNum 0.7) ms)
          = (map_of ms)(''ambientLightIntensity'' \<mapsto> JNum 0.7)
     \<and> map_of (AList.update ''ambientLightIntensity'' (JNum 0.7) ms) ''backgroundColor''
          = map_of ms ''backgroundColor''
     \<and> map_of (AList.update ''ambientLightIntensity'' (JNum 0.7) ms) ''ambientLightColor''
          = map_of ms ''ambientLightColor''
     \<and> map_of (AList.update ''ambientLightIntensity'' (JNum 0.7) ms) ''shapes''
          = map_of ms ''shapes''"
proof -
  from workflow_returned [OF assms] obtain ms s shapeCount where
    trace: "trace = stage1Events (analysisRequest prompt refs)
        @ stage2Start (modelRequest prompt refs (analysisTextOf (ai (analysisRequest prompt refs) 0)))
        @ laterStages shapeCount (JObj ms)"
    by blast
  let ?ms' = "AList.update ''ambientLightIntensity'' (JNum 0.7) ms"
  have "length (events trace) = 8
     \<and> stageId (events trace ! 3) = 2
     \<and> sceneConfig (events trace ! 3) = Some (JObj ms)
     \<and> stageId (events trace ! 7) = 4
     \<and> sceneConfig (events trace ! 7) = Some (JObj ?ms')"
    unfolding trace events_started by (simp add: laterStages_def brighten_object)
  moreover have "map_of ?ms' = (map_of ms)(''ambientLightIntensity'' \<mapsto> JNum 0.7)"
    by (rule update_conv')
  ultimately show ?thesis
    by (intro exI [of _ ms]) simp
qed

theorem final_scene_frame_witness:
  "generateSceneWorkflow referenceParse referenceToString exampleService ''a cat'' exampleImages
     = (stage1Events (analysisRequest ''a cat'' exampleImages)
        @ stage2Start (modelRequest ''a cat'' exampleImages ''Shape: box'')
        @ laterStages ''1'' (JObj exampleScene), None)
   \<and> sceneConfig (events (stage1Events (analysisRequest ''a cat'' exampleImages)
          @ stage2Start (modelRequest ''a cat'' exampleImages ''Shape: box'')
          @ laterStages ''1'' (JObj exampleScene)) ! 3) = Some (JObj exampleScene)
   \<and> sceneConfig (events (stage1Events (analysisRequest ''a cat'' exampleImages)
          @ stage2Start (modelRequest ''a cat'' exampleImages ''Shape: box'')
          @ laterStages ''1'' (JObj exampleScene)) ! 7)
       = Some (JObj (AList.update ''ambientLightIntensity'' (JNum 0.7) exampleScene))"
proof -
  let ?trace = "stage1Events (analysisRequest ''a cat'' exampleImages)
          @ stage2Start (modelRequest ''a cat'' exampleImages ''Shape: box'')
          @ laterStages ''1'' (JObj exampleScene)"
  from final_scene_frame [OF exampleRun] obtain ms where
    frame: "length (events ?trace) = 8
     \<and> stageId (events ?trace ! 3) = 2
     \<and> sceneConfig (events ?trace ! 3) = Some (JObj ms)
     \<and> stageId (events ?trace ! 7) = 4
     \<and> sceneConfig (events ?trace ! 7)
          = Some (JObj (AList.update ''ambientLightIntensity'' (JNum 0.7) ms))
     \<and> map_of (AList.update ''ambientLightIntensity'' (JNum 0.7) ms)
          = (map_of ms)(''ambientLightIntensity'' \<mapsto> JNum 0.7)
     \<and> map_of (AList.update ''ambientLightIntensity'' (JNum 0.7) ms) ''backgroundColor''
          = map_of ms ''backgroundColor''
     \<and> map_of (AList.update ''ambientLightIntensity'' (JNum 0.7) ms) ''ambientLightColor''
          = map_of ms ''ambientLightColor''
     \<and> map_of (AList.update ''ambientLightIntensity'' (JNum 0.7) ms) ''shapes''
          = map_of ms ''shapes''" ..
  from frame have 3: "sceneConfig (events ?trace ! 3) = Some (JObj ms)"
    by (rule conjunct2 [THEN conjunct2, THEN conjunct1])
  from frame have 7: "sceneConfig (events ?trace ! 7)
      = Some (JObj (AList.update ''ambientLightIntensity'' (JNum 0.7) ms))"
    by (rule conjunct2 [THEN conjunct2, THEN conjunct2, THEN conjunct2, THEN conjunct1])
  have "sceneConfig (events ?trace ! 3) = Some (JObj exampleScene)"
    unfolding events_started by (simp add: laterStages_def)
  with 3 have ms: "ms = exampleScene"
    by (simp only: option.inject json.inject)
  from exampleRun 3 7 show ?thesis
    unfolding ms by (intro conjI)
qed

text \<open>
  C8. When the analysis request of stage 1 rejects, the run is the run against a service
  whose analysis answered with the fallback text. The generator yields the second event of
  stage 1 and the first of stage 2 and issues exactly two requests, the second being the
  structured generation, whose prompt is the reconstruction template filled with the
  user's prompt and the fixed fallback sentence as the analysis context. Whether the run
  throws is decided by stage 2 alone: by the structured-generation request, the parse of
  its text, the reads of \<^verbatim>\<open>sceneData.shapes.length\<close> and the conversion of the length.
\<close>

theorem analysis_failure_absorbed:
  assumes "ai (analysisRequest prompt refs) 0 = Inl err"
  shows "generateSceneWorkflow JSON_parse ToString ai prompt refs
       = generateSceneWorkflow JSON_parse ToString
           (ai (analysisRequest prompt refs :=
                  (\<lambda>k. Inr \<lparr>candidates = None, responseText = Some analysisFallback\<rparr>)))
           prompt refs
     \<and> prefix (stage1Events (analysisRequest prompt refs)
                @ stage2Start (modelRequest prompt refs analysisFallback))
          (fst (generateSceneWorkflow JSON_parse ToString ai prompt refs))
     \<and> map stageId (take 3 (events (fst (generateSceneWorkflow JSON_parse ToString ai prompt refs))))
         = [1, 1, 2]
     \<and> requests (fst (generateSceneWorkflow JSON_parse ToString ai prompt refs))
         = [analysisRequest prompt refs, modelRequest prompt refs analysisFallback]
     \<and> contents (requests (fst (generateSceneWorkflow JSON_parse ToString ai prompt refs)) ! 1)
         = [InlineData ''image/png'' (front refs),
            TextPart (Plain ''Front View Reference''),
            InlineData ''image/png'' (left refs),
            TextPart (Plain ''Side View Reference''),
            TextPart (ModelPrompt prompt
              ''Visual analysis completed successfully. Requirement: 100k Polys, Quad-dominant Topology.'')]
     \<and> snd (generateSceneWorkflow JSON_parse ToString ai prompt refs)
       = (case ai (modelRequest prompt refs analysisFallback) 0 of
            Inl e \<Rightarrow> Some e
          | Inr r \<Rightarrow>
             (case parseModelText JSON_parse (responseText r) of
                Inl e \<Rightarrow> Some e
              | Inr v \<Rightarrow>
                 (case shapesLength v of
                    Inl e \<Rightarrow> Some e
                  | Inr n \<Rightarrow> (case ToString n of Inl e \<Rightarrow> Some e | Inr shapeCount \<Rightarrow> None))))"
proof -
  have a: "analysisTextOf (ai (analysisRequest prompt refs) 0) = analysisFallback"
    by (simp add: assms analysisTextOf_def)
  have nonempty: "analysisFallback \<noteq> []"
    by (simp add: analysisFallback_def)
  have 1: "generateSceneWorkflow JSON_parse ToString ai prompt refs
       = generateSceneWorkflow JSON_parse ToString
           (ai (analysisRequest prompt refs :=
                  (\<lambda>k. Inr \<lparr>candidates = None, responseText = Some analysisFallback\<rparr>)))
           prompt refs"
  proof (rule workflow_depends)
    show "analysisTextOf (ai (analysisRequest prompt refs) 0)
        = analysisTextOf ((ai (analysisRequest prompt refs :=
                  (\<lambda>k. Inr \<lparr>candidates = None, responseText = Some analysisFallback\<rparr>)))
            (analysisRequest prompt refs) 0)"
      unfolding a by (simp add: analysisTextOf_def nonempty)
    show "ai (modelRequest prompt refs (analysisTextOf (ai (analysisRequest prompt refs) 0))) 0
        = (ai (analysisRequest prompt refs :=
                  (\<lambda>k. Inr \<lparr>candidates = None, responseText = Some analysisFallback\<rparr>)))
            (modelRequest prompt refs (analysisTextOf (ai (analysisRequest prompt refs) 0))) 0"
      using requests_distinct [of prompt refs prompt refs, symmetric] by simp
  qed
  have "\<exists>rest. fst (generateSceneWorkflow JSON_parse ToString ai prompt refs)
      = stage1Events (analysisRequest prompt refs)
        @ stage2Start (modelRequest prompt refs analysisFallback) @ rest
      \<and> requests rest = []"
    by (simp add: generateSceneWorkflow_def Let_def a split: sum.splits)
  then obtain rest where
    trace: "fst (generateSceneWorkflow JSON_parse ToString ai prompt refs)
      = stage1Events (analysisRequest prompt refs)
        @ stage2Start (modelRequest prompt refs analysisFallback) @ rest"
    and quiet: "requests rest = []"
    by blast
  have 2: "prefix (stage1Events (analysisRequest prompt refs)
                @ stage2Start (modelRequest prompt refs analysisFallback))
          (fst (generateSceneWorkflow JSON_parse ToString ai prompt refs))"
    unfolding trace by simp
  have 3: "map stageId (take 3 (events (fst (generateSceneWorkflow JSON_parse ToString ai prompt refs))))
         = [1, 1, 2]"
    unfolding trace events_started by simp
  have 4: "requests (fst (generateSceneWorkflow JSON_parse ToString ai prompt refs))
         = [analysisRequest prompt refs, modelRequest prompt refs analysisFallback]"
    unfolding trace requests_started quiet ..
  have 5: "contents (requests (fst (generateSceneWorkflow JSON_parse ToString ai prompt refs)) ! 1)
         = [InlineData ''image/png'' (front refs),
            TextPart (Plain ''Front View Reference''),
            InlineData ''image/png'' (left refs),
            TextPart (Plain ''Side View Reference''),
            TextPart (ModelPrompt prompt
              ''Visual analysis completed successfully. Requirement: 100k Polys, Quad-dominant Topology.'')]"
    unfolding 4 by (simp add: modelRequest_def analysisFallback_def)
  have 6: "snd (generateSceneWorkflow JSON_parse ToString ai prompt refs)
       = (case ai (modelRequest prompt refs analysisFallback) 0 of
            Inl e \<Rightarrow> Some e
          | Inr r \<Rightarrow>
             (case parseModelText JSON_parse (responseText r) of
                Inl e \<Rightarrow> Some e
              | Inr v \<Rightarrow>
                 (case shapesLength v of
                    Inl e \<Rightarrow> Some e
                  | Inr n \<Rightarrow> (case ToString n of Inl e \<Rightarrow> Some e | Inr shapeCount \<Rightarrow> None))))"
    by (simp add: generateSceneWorkflow_def Let_def a split: sum.splits)
  from 1 2 3 4 5 6 show ?thesis
    by (intro conjI)
qed

theorem analysis_failure_absorbed_witness:
  "failingAnalysisService (analysisRequest ''a cat'' exampleImages) 0 = Inl (Error ''network down'')
   \<and> prefix (stage1Events (analysisRequest ''a cat'' exampleImages)
              @ stage2Start (modelRequest ''a cat'' exampleImages analysisFallback))
        (fst (generateSceneWorkflow referenceParse referenceToString failingAnalysisService
               ''a cat'' exampleImages))
   \<and> requests (fst (generateSceneWorkflow referenceParse referenceToString failingAnalysisService
               ''a cat'' exampleImages))
       = [analysisRequest ''a cat'' exampleImages,
          modelRequest ''a cat'' exampleImages analysisFallback]
   \<and> snd (generateSceneWorkflow referenceParse referenceToString failingAnalysisService
               ''a cat'' exampleImages) = None"
proof -
  have a: "failingAnalysisService (analysisRequest ''a cat'' exampleImages) 0
      = Inl (Error ''network down'')"
    by (simp add: failingAnalysisService_def scriptedService_def analysisRequest_def)
  have m: "failingAnalysisService (modelRequest ''a cat'' exampleImages analysisFallback) 0
      = Inr \<lparr>candidates = None, responseText = Some exampleSceneText\<rparr>"
    by (simp add: failingAnalysisService_def scriptedService_def modelRequest_def textResponse_def)
  have len: "shapesLength (JObj exampleScene) = Inr (Some (JNum 1))"
    by (simp add: shapesLength_def getShapes_def getLength_def exampleScene_def)
  have count: "referenceToString (Some (JNum 1)) = Inr (showNat 1)"
    by (simp add: referenceToString_def)
  note absorbed = analysis_failure_absorbed [of failingAnalysisService "''a cat''" exampleImages
        "Error ''network down''" referenceParse referenceToString, OF a]
  from absorbed have p: "prefix (stage1Events (analysisRequest ''a cat'' exampleImages)
              @ stage2Start (modelRequest ''a cat'' exampleImages analysisFallback))
        (fst (generateSceneWorkflow referenceParse referenceToString failingAnalysisService
               ''a cat'' exampleImages))"
    by (rule conjunct2 [THEN conjunct1])
  from absorbed have r: "requests (fst (generateSceneWorkflow referenceParse referenceToString
      failingAnalysisService ''a cat'' exampleImages))
       = [analysisRequest ''a cat'' exampleImages,
          modelRequest ''a cat'' exampleImages analysisFallback]"
    by (rule conjunct2 [THEN conjunct2, THEN conjunct2, THEN conjunct1])
  from absorbed have "snd (generateSceneWorkflow referenceParse referenceToString
      failingAnalysisService ''a cat'' exampleImages)
       = (case failingAnalysisService (modelRequest ''a cat'' exampleImages analysisFallback) 0 of
            Inl e \<Rightarrow> Some e
          | Inr r \<Rightarrow>
             (case parseModelText referenceParse (responseText r) of
                Inl e \<Rightarrow> Some e
              | Inr v \<Rightarrow>
                 (case shapesLength v of
                    Inl e \<Rightarrow> Some e
                  | Inr n \<Rightarrow>
                     (case referenceToString n of Inl e \<Rightarrow> Some e | Inr shapeCount \<Rightarrow> None))))"
    by (rule conjunct2 [THEN conjunct2, THEN conjunct2, THEN conjunct2, THEN conjunct2])
  then have "snd (generateSceneWorkflow referenceParse referenceToString
      failingAnalysisService ''a cat'' exampleImages) = None"
    by (simp add: m parseModelText_def exampleScene_parsed len count)
  from a p r this show ?thesis
    by (intro conjI)
qed

text \<open>
  C9, as amended. In every run the second event of stage 1 carries the same four log
  lines, which name the results that the analysis prompt asks for and do not depend on
  the analysis response; the analysis text itself goes to the prompt of the
  structured-generation request of stage 2, the second and last request of the run.
\<close>

theorem stage1_logs_fixed:
  "logs (events (fst (generateSceneWorkflow JSON_parse ToString ai prompt refs)) ! 1)
     = [''Visual decomposition complete.'',
        ''Analysis Result: Recommended Poly Count > 100k'',
        ''Analysis Result: Topology = Quad-dominant (Subdivision Ready)'',
        ''Material classification done.'']
   \<and> stageId (events (fst (generateSceneWorkflow JSON_parse ToString ai prompt refs)) ! 1) = 1
   \<and> stageId (events (fst (generateSceneWorkflow JSON_parse ToString ai prompt refs)) ! 2) = 2
   \<and> length (requests (fst (generateSceneWorkflow JSON_parse ToString ai prompt refs))) = 2
   \<and> last (contents (requests (fst (generateSceneWorkflow JSON_parse ToString ai prompt refs)) ! 1))
       = TextPart (ModelPrompt prompt (analysisTextOf (ai (analysisRequest prompt refs) 0)))"
proof -
  have "\<exists>rest. fst (generateSceneWorkflow JSON_parse ToString ai prompt refs)
      = stage1Events (analysisRequest prompt refs)
        @ stage2Start (modelRequest prompt refs (analysisTextOf (ai (analysisRequest prompt refs) 0)))
        @ rest
      \<and> requests rest = []"
    by (simp add: generateSceneWorkflow_def Let_def split: sum.splits)
  then obtain rest where
    trace: "fst (generateSceneWorkflow JSON_parse ToString ai prompt refs)
      = stage1Events (analysisRequest prompt refs)
        @ stage2Start (modelRequest prompt refs (analysisTextOf (ai (analysisRequest prompt refs) 0)))
        @ rest"
    and quiet: "requests rest = []"
    by blast
  have evs: "logs (events (fst (generateSceneWorkflow JSON_parse ToString ai prompt refs)) ! 1)
     = [''Visual decomposition complete.'',
        ''Analysis Result: Recommended Poly Count > 100k'',
        ''Analysis Result: Topology = Quad-dominant (Subdivision Ready)'',
        ''Material classification done.'']
   \<and> stageId (events (fst (generateSceneWorkflow JSON_parse ToString ai prompt refs)) ! 1) = 1
   \<and> stageId (events (fst (generateSceneWorkflow JSON_parse ToString ai prompt refs)) ! 2) = 2"
    unfolding trace events_started by simp
  have reqs: "length (requests (fst (generateSceneWorkflow JSON_parse ToString ai prompt refs))) = 2
   \<and> last (contents (requests (fst (generateSceneWorkflow JSON_parse ToString ai prompt refs)) ! 1))
       = TextPart (ModelPrompt prompt (analysisTextOf (ai (analysisRequest prompt refs) 0)))"
    unfolding trace requests_started quiet by (simp add: modelRequest_def)
  from evs reqs show ?thesis
    by (simp only: simp_thms)
qed

text \<open>
  C9 as stated fails on every run. Against \<open>exampleService\<close> the analysis text is
  \<^verbatim>\<open>Shape: box\<close>, and no log line of the second event of stage 1 contains it; against
  \<open>failingAnalysisService\<close> the analysis text is the fallback sentence, another text, and
  the log lines are the same.
\<close>

theorem stage1_logs_fixed_counterexample:
  "analysisTextOf (exampleService (analysisRequest ''a cat'' exampleImages) 0) = ''Shape: box''
   \<and> logs (events (fst (generateSceneWorkflow referenceParse referenceToString exampleService
          ''a cat'' exampleImages)) ! 1)
       = [''Visual decomposition complete.'',
          ''Analysis Result: Recommended Poly Count > 100k'',
          ''Analysis Result: Topology = Quad-dominant (Subdivision Ready)'',
          ''Material classification done.'']
   \<and> filter (sublist ''Shape: box'')
        (logs (events (fst (generateSceneWorkflow referenceParse referenceToString exampleService
          ''a cat'' exampleImages)) ! 1)) = []
   \<and> analysisTextOf (failingAnalysisService (analysisRequest ''a cat'' exampleImages) 0)
       = ''Visual analysis completed successfully. Requirement: 100k Polys, Quad-dominant Topology.''
   \<and> logs (events (fst (generateSceneWorkflow referenceParse referenceToString
          failingAnalysisService ''a cat'' exampleImages)) ! 1)
       = logs (events (fst (generateSceneWorkflow referenceParse referenceToString exampleService
          ''a cat'' exampleImages)) ! 1)"
proof -
  have a: "analysisTextOf (exampleService (analysisRequest ''a cat'' exampleImages) 0) = ''Shape: box''"
    by (simp add: exampleService_def scriptedService_def analysisRequest_def textResponse_def
        analysisTextOf_def)
  have f: "analysisTextOf (failingAnalysisService (analysisRequest ''a cat'' exampleImages) 0)
       = ''Visual analysis completed successfully. Requirement: 100k Polys, Quad-dominant Topology.''"
    by (simp add: failingAnalysisService_def scriptedService_def analysisRequest_def
        analysisTextOf_def analysisFallback_def)
  have "\<exists>rest. fst (generateSceneWorkflow referenceParse referenceToString failingAnalysisService
          ''a cat'' exampleImages)
      = stage1Events (analysisRequest ''a cat'' exampleImages)
        @ stage2Start (modelRequest ''a cat'' exampleImages
            (analysisTextOf (failingAnalysisService (analysisRequest ''a cat'' exampleImages) 0)))
        @ rest"
    by (simp add: generateSceneWorkflow_def Let_def split: sum.splits)
  then obtain rest where "fst (generateSceneWorkflow referenceParse referenceToString
          failingAnalysisService ''a cat'' exampleImages)
      = stage1Events (analysisRequest ''a cat'' exampleImages)
        @ stage2Start (modelRequest ''a cat'' exampleImages
            (analysisTextOf (failingAnalysisService (analysisRequest ''a cat'' exampleImages) 0)))
        @ rest" ..
  then have failing: "logs (events (fst (generateSceneWorkflow referenceParse referenceToString
          failingAnalysisService ''a cat'' exampleImages)) ! 1)
       = [''Visual decomposition complete.'',
          ''Analysis Result: Recommended Poly Count > 100k'',
          ''Analysis Result: Topology = Quad-dominant (Subdivision Ready)'',
          ''Material classification done.'']"
    unfolding events_started by simp
  have example: "logs (events (fst (generateSceneWorkflow referenceParse referenceToString
          exampleService ''a cat'' exampleImages)) ! 1)
       = [''Visual decomposition complete.'',
          ''Analysis Result: Recommended Poly Count > 100k'',
          ''Analysis Result: Topology = Quad-dominant (Subdivision Ready)'',
          ''Material classification done.'']"
    unfolding exampleRun fst_conv events_started by simp
  have absent: "filter (sublist ''Shape: box'')
        [''Visual decomposition complete.'',
          ''Analysis Result: Recommended Poly Count > 100k'',
          ''Analysis Result: Topology = Quad-dominant (Subdivision Ready)'',
          ''Material classification done.''] = []"
    by code_simp
  show ?thesis
    unfolding failing example absent using a f by (intro conjI) simp_all
qed

text \<open>
  C10. \<open>generateSceneFromPrompt\<close>, given a reference image set, consumes the generator.
  When the generator returns normally, the batch form returns the scene carried by the last
  event that carries one, which is the scene of the final stage-4 event, with
  \<^verbatim>\<open>ambientLightIntensity\<close> 0.7. When no event of the run carries a scene, the batch form
  throws.
\<close>

theorem batch_agrees_with_stream:
  assumes "generateSceneWorkflow JSON_parse ToString ai prompt refs = (trace, thrown)"
  shows "(thrown = None \<longrightarrow>
           (\<exists>ms. generateSceneFromPrompt JSON_parse ToString ai prompt (Some refs)
                   = (Inr (JObj ms), trace)
               \<and> lastSceneCarried (events trace) = Some (JObj ms)
               \<and> sceneConfig (last (events trace)) = Some (JObj ms)
               \<and> stageId (last (events trace)) = 4
               \<and> map_of ms ''ambientLightIntensity'' = Some (JNum 0.7)))
     \<and> (lastSceneCarried (events trace) = None \<longrightarrow>
           (\<exists>e. generateSceneFromPrompt JSON_parse ToString ai prompt (Some refs) = (Inl e, trace)))"
proof -
  have fold: "foldl keepConfig None (events trace) = lastSceneCarried (events trace)"
    using workflow_events_truthy [of JSON_parse ToString ai prompt refs] assms
    by (intro foldl_keepConfig_last) simp
  have batch: "generateSceneFromPrompt JSON_parse ToString ai prompt (Some refs)
      = (case thrown of
           Some error \<Rightarrow> (Inl error, trace)
         | None \<Rightarrow>
            (case lastSceneCarried (events trace) of
               None \<Rightarrow> (Inl (Error ''Failed to generate scene''), trace)
             | Some c \<Rightarrow> (Inr c, trace)))"
    by (simp add: generateSceneFromPrompt_def assms fold)
  have returned: ?thesis if "thrown = None"
  proof -
    note none = that
    from workflow_returned [OF assms [unfolded that]] obtain ms s shapeCount where
      trace: "trace = stage1Events (analysisRequest prompt refs)
        @ stage2Start (modelRequest prompt refs (analysisTextOf (ai (analysisRequest prompt refs) 0)))
        @ laterStages shapeCount (JObj ms)"
      by blast
    let ?ms' = "AList.update ''ambientLightIntensity'' (JNum 0.7) ms"
    have evs: "lastSceneCarried (events trace) = Some (JObj ?ms')
        \<and> sceneConfig (last (events trace)) = Some (JObj ?ms')
        \<and> stageId (last (events trace)) = 4"
      unfolding trace events_started
      by (simp add: laterStages_def brighten_object lastSceneCarried_def)
    moreover have "map_of ?ms' ''ambientLightIntensity'' = Some (JNum 0.7)"
      by (simp add: update_conv')
    ultimately show ?thesis
      using that by (simp add: batch)
  qed
  have thrown: ?thesis if "thrown = Some e" for e
    using that by (simp add: batch)
  from returned thrown show ?thesis
    by (cases thrown) auto
qed

theorem batch_agrees_with_stream_witness:
  "generateSceneFromPrompt referenceParse referenceToString exampleService ''a cat''
      (Some exampleImages)
     = (Inr (JObj (AList.update ''ambientLightIntensity'' (JNum 0.7) exampleScene)),
        stage1Events (analysisRequest ''a cat'' exampleImages)
          @ stage2Start (modelRequest ''a cat'' exampleImages ''Shape: box'')
          @ laterStages ''1'' (JObj exampleScene))
   \<and> lastSceneCarried (events (stage1Events (analysisRequest ''a cat'' exampleImages)
          @ stage2Start (modelRequest ''a cat'' exampleImages ''Shape: box'') @ [])) = None
   \<and> isl (fst (generateSceneFromPrompt referenceParse referenceToString brokenService ''a cat''
        (Some exampleImages)))"
proof -
  let ?trace = "stage1Events (analysisRequest ''a cat'' exampleImages)
          @ stage2Start (modelRequest ''a cat'' exampleImages ''Shape: box'')
          @ laterStages ''1'' (JObj exampleScene)"
  let ?broken = "stage1Events (analysisRequest ''a cat'' exampleImages)
          @ stage2Start (modelRequest ''a cat'' exampleImages ''Shape: box'') @ []"
  from batch_agrees_with_stream [OF exampleRun]
  have "\<exists>ms. generateSceneFromPrompt referenceParse referenceToString exampleService ''a cat''
            (Some exampleImages) = (Inr (JObj ms), ?trace)
          \<and> lastSceneCarried (events ?trace) = Some (JObj ms)
          \<and> sceneConfig (last (events ?trace)) = Some (JObj ms)
          \<and> stageId (last (events ?trace)) = 4
          \<and> map_of ms ''ambientLightIntensity'' = Some (JNum 0.7)"
    by (rule conjunct1 [THEN mp]) (rule refl)
  then obtain ms where
    ok: "generateSceneFromPrompt referenceParse referenceToString exampleService ''a cat''
            (Some exampleImages) = (Inr (JObj ms), ?trace)
          \<and> lastSceneCarried (events ?trace) = Some (JObj ms)
          \<and> sceneConfig (last (events ?trace)) = Some (JObj ms)
          \<and> stageId (last (events ?trace)) = 4
          \<and> map_of ms ''ambientLightIntensity'' = Some (JNum 0.7)" ..
  from ok have batch: "generateSceneFromPrompt referenceParse referenceToString exampleService
      ''a cat'' (Some exampleImages) = (Inr (JObj ms), ?trace)"
    by (rule conjunct1)
  from ok have final: "sceneConfig (last (events ?trace)) = Some (JObj ms)"
    by (rule conjunct2 [THEN conjunct2, THEN conjunct1])
  have "sceneConfig (last (events ?trace))
      = Some (JObj (AList.update ''ambientLightIntensity'' (JNum 0.7) exampleScene))"
    unfolding events_started by (simp add: laterStages_def brighten_object)
  with final have ms: "ms = AList.update ''ambientLightIntensity'' (JNum 0.7) exampleScene"
    by (simp only: option.inject json.inject)
  have none: "lastSceneCarried (events ?broken) = None"
    unfolding events_started by (simp add: lastSceneCarried_def)
  from batch_agrees_with_stream [OF brokenRun]
  have "\<exists>e. generateSceneFromPrompt referenceParse referenceToString brokenService ''a cat''
      (Some exampleImages) = (Inl e, ?broken)"
    by (rule conjunct2 [THEN mp]) (rule none)
  then obtain e where "generateSceneFromPrompt referenceParse referenceToString brokenService
      ''a cat'' (Some exampleImages) = (Inl e, ?broken)" ..
  then have "isl (fst (generateSceneFromPrompt referenceParse referenceToString brokenService
      ''a cat'' (Some exampleImages)))"
    by simp
  with batch none show ?thesis
    unfolding ms by (intro conjI)
qed

end
